theory Spec2Isabelle
  imports Complex_Main "HOL-Library.Sublist"
begin

section \<open>Python values, exceptions and strings\<close>

text \<open>
  The agent moves JSON-like Python values around: tool arguments decoded by
  \<^verbatim>\<open>json.loads\<close>, tool results that are dictionaries. A dictionary is an association
  list with string keys. Python floats (the wall-clock samples) are taken as reals, so
  rounding is not part of the model. Strings are lists of 8-bit characters, read as the
  code points below 256.
\<close>

datatype pyval =
    PNone
  | PBool bool
  | PInt int
  | PFloat real
  | PStr string
  | PList "pyval list"
  | PDict "(string \<times> pyval) list"

text \<open>Exceptions that leave a function are values: \<open>Inl\<close> of a sum.\<close>

datatype exn =
    TypeError
  | IndexError
  | ZeroDivisionError
  | EngineError string
  | GatewayError string
  | Exit int

text \<open>Python truthiness, as used by \<^verbatim>\<open>x or y\<close> and \<^verbatim>\<open>if not x\<close>.\<close>

fun truthy :: "pyval \<Rightarrow> bool" where
  "truthy PNone = False"
| "truthy (PBool b) = b"
| "truthy (PInt n) = (n \<noteq> 0)"
| "truthy (PFloat x) = (x \<noteq> 0)"
| "truthy (PStr s) = (s \<noteq> [])"
| "truthy (PList xs) = (xs \<noteq> [])"
| "truthy (PDict kvs) = (kvs \<noteq> [])"

text \<open>
  \<^verbatim>\<open>str.isspace\<close> on the code points below 256: tab to carriage return, the four
  separators 0x1c..0x1f, the space, NEL and the no-break space.
\<close>

definition is_space :: "char \<Rightarrow> bool" where
  "is_space c = (of_char c \<in> {9, 10, 11, 12, 13, 28, 29, 30, 31, 32, 133, 160 :: nat})"

definition strip :: "string \<Rightarrow> string" where
  "strip s = rev (dropWhile is_space (rev (dropWhile is_space s)))"

text \<open>\<^verbatim>\<open>str.lower\<close> on the code points below 256 (A..Z and the Latin-1 capitals).\<close>

definition lower_char :: "char \<Rightarrow> char" where
  "lower_char c =
     (let n = (of_char c :: nat)
      in if (65 \<le> n \<and> n \<le> 90) \<or> (192 \<le> n \<and> n \<le> 222 \<and> n \<noteq> 215)
         then char_of (n + 32) else c)"

definition lower :: "string \<Rightarrow> string" where
  "lower s = map lower_char s"

text \<open>\<^verbatim>\<open>p in s\<close> for strings: \<open>p\<close> occurs somewhere in \<open>s\<close>.\<close>

fun contains :: "string \<Rightarrow> string \<Rightarrow> bool" where
  "contains p [] = (p = [])"
| "contains p (c # cs) = (prefix p (c # cs) \<or> contains p cs)"

text \<open>\<^verbatim>\<open>sep.join(xs)\<close>.\<close>

fun join :: "string \<Rightarrow> string list \<Rightarrow> string" where
  "join sep [] = []"
| "join sep [x] = x"
| "join sep (x # y # ys) = x @ sep @ join sep (y # ys)"

text \<open>\<^verbatim>\<open>xs[i]\<close> for an index that is not negative.\<close>

definition py_index :: "'a list \<Rightarrow> nat \<Rightarrow> exn + 'a" where
  "py_index xs i = (if i < length xs then Inr (xs ! i) else Inl IndexError)"

text \<open>
  \<^verbatim>\<open>range(n)\<close>: the number of iterations. A bool is an int in Python; anything else
  that is not an int raises \<^verbatim>\<open>TypeError\<close>.
\<close>

fun py_range :: "pyval \<Rightarrow> exn + nat" where
  "py_range (PInt n) = Inr (nat n)"
| "py_range (PBool b) = Inr (if b then 1 else 0)"
| "py_range _ = Inl TypeError"

section \<open>The transcript\<close>

text \<open>
  The items of a gateway response (\<^verbatim>\<open>resp["output"]\<close>). A field read with
  \<^verbatim>\<open>.get\<close> is an option; \<open>None\<close> is the absent field.
\<close>

datatype chunk = Chunk (chunk_type: "string option") (chunk_text: "string option")

datatype content = ContentList "chunk list" | ContentStr string | ContentOther

datatype item =
    FunctionCall (fc_name: "string option") (fc_arguments: "pyval option")
                 (fc_call_id: "string option") (fc_id: "string option")
  | Message content
  | OtherItem string

datatype msg =
    RoleMsg string string
  | OutputItem item
  | FunctionCallOutput (out_call_id: "string option") (out_output: string)

datatype event =
    ToolCall "string option" pyval
  | ToolResult "string option" pyval

section \<open>The collaborators\<close>

text \<open>
  The model gateway, the JSON codec and the query engine are outside the core. They are
  functions of a world \<open>'w\<close> that every call may change, so two executions of the same
  statement may take different times. \<open>responses_create\<close> gives the list of output items
  of the response, or raises. \<^verbatim>\<open>json.loads\<close> gives no value when it raises;
  \<^verbatim>\<open>json.dumps\<close> is applied to tool results only and is taken as total. Of the tool provider,
  \<open>list_tables\<close>, \<open>table_exists\<close> and \<open>describe_relation\<close> run catalogue queries with no
  handler around them, so they may raise; \<open>explain\<close> and \<open>explain_analyze\<close> catch every
  exception and return an \<^verbatim>\<open>ok: False\<close> record instead.
\<close>

datatype ea_result =
    EA_ok (elapsed_ms_client: real) (total_time_s_explain: "real option") (analyze: string)
  | EA_error (ea_error: string)

record 'w env =
  responses_create :: "'w \<Rightarrow> msg list \<Rightarrow> (exn + item list) \<times> 'w"
  loads :: "string \<Rightarrow> pyval option"
  dumps :: "pyval \<Rightarrow> string"
  list_tables :: "'w \<Rightarrow> (exn + pyval) \<times> 'w"
  table_exists :: "'w \<Rightarrow> pyval \<Rightarrow> (exn + pyval) \<times> 'w"
  describe_relation :: "'w \<Rightarrow> pyval \<Rightarrow> pyval \<Rightarrow> (exn + pyval) \<times> 'w"
  explain :: "'w \<Rightarrow> pyval \<Rightarrow> pyval \<times> 'w"
  explain_analyze :: "'w \<Rightarrow> pyval \<Rightarrow> pyval \<Rightarrow> ea_result \<times> 'w"

section \<open>\<^verbatim>\<open>DuckDBTooling.benchmark\<close>\<close>

datatype bench =
    BenchOk (b_runs: pyval) (b_warmup: pyval) (elapsed_ms: "real list") (median_ms: real)
            (analyze_sample: "string option") (total_time_s_explain_sample: "real option")
  | BenchError (bench_error: string)

fun bench_ok :: "bench \<Rightarrow> bool" where
  "bench_ok (BenchOk _ _ _ _ _ _) = True"
| "bench_ok (BenchError _) = False"

text \<open>The warm-up loop: the first failed execution ends the benchmark.\<close>

fun warmup_loop :: "'w env \<Rightarrow> nat \<Rightarrow> pyval \<Rightarrow> pyval \<Rightarrow> 'w \<Rightarrow> string option \<times> 'w" where
  "warmup_loop E 0 sql timeout_s w = (None, w)"
| "warmup_loop E (Suc n) sql timeout_s w =
     (case explain_analyze E w sql timeout_s of
        (EA_error e, w') \<Rightarrow> (Some e, w')
      | (EA_ok _ _ _, w') \<Rightarrow> warmup_loop E n sql timeout_s w')"

text \<open>The measured loop, with \<open>ts\<close> (the list \<^verbatim>\<open>times\<close>), \<open>last_analyze\<close> and \<open>last_total_s\<close> as accumulators.\<close>

fun measured_loop ::
  "'w env \<Rightarrow> nat \<Rightarrow> pyval \<Rightarrow> pyval \<Rightarrow> real list \<Rightarrow> string option \<Rightarrow> real option \<Rightarrow> 'w
   \<Rightarrow> (string + real list \<times> string option \<times> real option) \<times> 'w" where
  "measured_loop E 0 sql timeout_s ts la lt w = (Inr (ts, la, lt), w)"
| "measured_loop E (Suc n) sql timeout_s ts la lt w =
     (case explain_analyze E w sql timeout_s of
        (EA_error e, w') \<Rightarrow> (Inl e, w')
      | (EA_ok el tot an, w') \<Rightarrow> measured_loop E n sql timeout_s (ts @ [el]) (Some an) tot w')"

definition benchmark ::
  "'w env \<Rightarrow> 'w \<Rightarrow> pyval \<Rightarrow> pyval \<Rightarrow> pyval \<Rightarrow> pyval \<Rightarrow> (exn + bench) \<times> 'w" where
  "benchmark E w sql runs warmup timeout_s =
     (case py_range warmup of
        Inl x \<Rightarrow> (Inl x, w)
      | Inr nw \<Rightarrow>
          (case warmup_loop E nw sql timeout_s w of
             (Some e, w1) \<Rightarrow> (Inr (BenchError e), w1)
           | (None, w1) \<Rightarrow>
               (case py_range runs of
                  Inl x \<Rightarrow> (Inl x, w1)
                | Inr nr \<Rightarrow>
                    (case measured_loop E nr sql timeout_s [] None None w1 of
                       (Inl e, w2) \<Rightarrow> (Inr (BenchError e), w2)
                     | (Inr (ts, la, lt), w2) \<Rightarrow>
                         (let times_sorted = sort ts
                          in case py_index times_sorted (length times_sorted div 2) of
                               Inl x \<Rightarrow> (Inl x, w2)
                             | Inr median \<Rightarrow>
                                 (Inr (BenchOk runs warmup ts median la lt), w2))))))"

text \<open>
  \<open>n\<close> executions in a row, from the world \<open>w\<close>, all succeed.
\<close>

fun all_succeed :: "'w env \<Rightarrow> nat \<Rightarrow> pyval \<Rightarrow> pyval \<Rightarrow> 'w \<Rightarrow> bool" where
  "all_succeed E 0 sql timeout_s w = True"
| "all_succeed E (Suc n) sql timeout_s w =
     (case explain_analyze E w sql timeout_s of
        (EA_error e, w') \<Rightarrow> False
      | (EA_ok _ _ _, w') \<Rightarrow> all_succeed E n sql timeout_s w')"

section \<open>\<^verbatim>\<open>SQLAgent._dispatch\<close>\<close>

text \<open>
  \<^verbatim>\<open>f(**args)\<close>: \<open>args\<close> must be a mapping, each of its keys must name a parameter, and
  each parameter without a default must be given. Anything else is a \<^verbatim>\<open>TypeError\<close>,
  raised before the body of \<open>f\<close> runs. A parameter is its name and its default, if any.
\<close>

fun bind_params :: "(string \<times> pyval option) list \<Rightarrow> (string \<times> pyval) list \<Rightarrow> exn + pyval list" where
  "bind_params [] kvs = Inr []"
| "bind_params ((p, d) # ps) kvs =
     (case (case map_of kvs p of Some v \<Rightarrow> Some v | None \<Rightarrow> d) of
        None \<Rightarrow> Inl TypeError
      | Some v \<Rightarrow> (case bind_params ps kvs of Inl x \<Rightarrow> Inl x | Inr vs \<Rightarrow> Inr (v # vs)))"

definition call_kwargs :: "(string \<times> pyval option) list \<Rightarrow> pyval \<Rightarrow> exn + pyval list" where
  "call_kwargs params args =
     (case args of
        PDict kvs \<Rightarrow>
          (if list_all (\<lambda>k. k \<in> set (map fst params)) (map fst kvs)
           then bind_params params kvs else Inl TypeError)
      | _ \<Rightarrow> Inl TypeError)"

fun bench_dict :: "bench \<Rightarrow> pyval" where
  "bench_dict (BenchOk runs warmup ts median la lt) =
     PDict [(''ok'', PBool True), (''runs'', runs), (''warmup'', warmup),
            (''elapsed_ms'', PList (map PFloat ts)), (''median_ms'', PFloat median),
            (''analyze_sample'', (case la of None \<Rightarrow> PNone | Some a \<Rightarrow> PStr a)),
            (''total_time_s_explain_sample'', (case lt of None \<Rightarrow> PNone | Some x \<Rightarrow> PFloat x))]"
| "bench_dict (BenchError e) = PDict [(''ok'', PBool False), (''error'', PStr e)]"

text \<open>A name read with \<^verbatim>\<open>call.get("name")\<close>, as a value and inside an f-string.\<close>

fun name_val :: "string option \<Rightarrow> pyval" where
  "name_val None = PNone"
| "name_val (Some s) = PStr s"

fun name_str :: "string option \<Rightarrow> string" where
  "name_str None = ''None''"
| "name_str (Some s) = s"

definition unknown_tool :: "string option \<Rightarrow> pyval \<Rightarrow> pyval" where
  "unknown_tool name args =
     PDict [(''ok'', PBool False), (''error'', PStr (''Unknown tool: '' @ name_str name)),
            (''name'', name_val name), (''args'', args)]"

definition dispatch :: "'w env \<Rightarrow> 'w \<Rightarrow> string option \<Rightarrow> pyval \<Rightarrow> (exn + pyval) \<times> 'w" where
  "dispatch E w name args =
     (if name = Some ''list_tables'' then list_tables E w
      else if name = Some ''table_exists'' then
        (case call_kwargs [(''name'', None)] args of
           Inl x \<Rightarrow> (Inl x, w)
         | Inr [n] \<Rightarrow> table_exists E w n
         | Inr _ \<Rightarrow> (Inl TypeError, w))
      else if name = Some ''describe_relation'' then
        (case call_kwargs [(''name'', None), (''sample_cols'', Some (PInt 200))] args of
           Inl x \<Rightarrow> (Inl x, w)
         | Inr [n, sample_cols] \<Rightarrow> describe_relation E w n sample_cols
         | Inr _ \<Rightarrow> (Inl TypeError, w))
      else if name = Some ''explain'' then
        (case call_kwargs [(''sql'', None)] args of
           Inl x \<Rightarrow> (Inl x, w)
         | Inr [sql] \<Rightarrow> (case explain E w sql of (r, w') \<Rightarrow> (Inr r, w'))
         | Inr _ \<Rightarrow> (Inl TypeError, w))
      else if name = Some ''benchmark'' then
        (case call_kwargs [(''sql'', None), (''runs'', Some (PInt 3)), (''warmup'', Some (PInt 1)),
                           (''timeout_s'', Some (PInt 60))] args of
           Inl x \<Rightarrow> (Inl x, w)
         | Inr [sql, runs, warmup, timeout_s] \<Rightarrow>
             (case benchmark E w sql runs warmup timeout_s of
                (Inl x, w') \<Rightarrow> (Inl x, w')
              | (Inr b, w') \<Rightarrow> (Inr (bench_dict b), w'))
         | Inr _ \<Rightarrow> (Inl TypeError, w))
      else (Inr (unknown_tool name args), w))"

definition registered_tools :: "string list" where
  "registered_tools = [''list_tables'', ''table_exists'', ''describe_relation'', ''explain'', ''benchmark'']"

section \<open>\<^verbatim>\<open>SQLAgent.run_tool_loop\<close>\<close>

record agent_config =
  max_tool_steps :: int

fun is_function_call :: "item \<Rightarrow> bool" where
  "is_function_call (FunctionCall _ _ _ _) = True"
| "is_function_call _ = False"

fun item_text_chunks :: "item \<Rightarrow> string list" where
  "item_text_chunks (Message (ContentList cs)) =
     map (\<lambda>c. case chunk_text c of None \<Rightarrow> [] | Some t \<Rightarrow> t)
         (filter (\<lambda>c. chunk_type c = Some ''output_text'' \<or> chunk_type c = Some ''text'') cs)"
| "item_text_chunks (Message (ContentStr s)) = [s]"
| "item_text_chunks _ = []"

text \<open>
  \<^verbatim>\<open>json.loads(args_str) if isinstance(args_str, str) else (args_str or {})\<close>, with the
  handler that turns a decoding error into the empty mapping. An absent
  \<^verbatim>\<open>arguments\<close> field reads as the string \<^verbatim>\<open>{}\<close>.
\<close>

definition decode_args :: "'w env \<Rightarrow> pyval option \<Rightarrow> pyval" where
  "decode_args E a =
     (case (case a of None \<Rightarrow> PStr ''{}'' | Some v \<Rightarrow> v) of
        PStr s \<Rightarrow> (case loads E s of None \<Rightarrow> PDict [] | Some v \<Rightarrow> v)
      | v \<Rightarrow> (if truthy v then v else PDict []))"

text \<open>\<^verbatim>\<open>call.get("call_id") or call.get("id")\<close>.\<close>

fun call_ident :: "item \<Rightarrow> string option" where
  "call_ident (FunctionCall _ _ cid i) =
     (case cid of None \<Rightarrow> i | Some s \<Rightarrow> (if s \<noteq> [] then Some s else i))"
| "call_ident _ = None"

text \<open>The transcript record \<open>m\<close> is a tool result that carries the call identifier \<open>k\<close>.\<close>

fun carries :: "string option \<Rightarrow> msg \<Rightarrow> bool" where
  "carries k (FunctionCallOutput cid out) = (cid = k)"
| "carries k _ = False"

text \<open>
  The inner loop over \<open>tool_calls\<close>. An exception of \<open>dispatch\<close> leaves the loop at once:
  the \<open>tool_call\<close> event is in the log, no \<open>tool_result\<close> event and no transcript record is.
\<close>

fun run_calls ::
  "'w env \<Rightarrow> item list \<Rightarrow> msg list \<Rightarrow> event list \<Rightarrow> 'w \<Rightarrow> exn option \<times> msg list \<times> event list \<times> 'w" where
  "run_calls E [] msgs events w = (None, msgs, events, w)"
| "run_calls E (call # calls) msgs events w =
     (let name = (case call of FunctionCall n _ _ _ \<Rightarrow> n | _ \<Rightarrow> None);
          args = decode_args E (case call of FunctionCall _ a _ _ \<Rightarrow> a | _ \<Rightarrow> None);
          call_id = call_ident call;
          events1 = events @ [ToolCall name args]
      in case dispatch E w name args of
           (Inl x, w') \<Rightarrow> (Some x, msgs, events1, w')
         | (Inr result, w') \<Rightarrow>
             run_calls E calls (msgs @ [FunctionCallOutput call_id (dumps E result)])
                       (events1 @ [ToolResult name result]) w')"

definition final_text_of :: "string list \<Rightarrow> string option" where
  "final_text_of final_text_chunks =
     (let t = strip (join [CHR 0x0A] (filter (\<lambda>t. strip t \<noteq> []) final_text_chunks))
      in if t = [] then None else Some t)"

text \<open>How one pass through the body of the \<^verbatim>\<open>for\<close> loop ends.\<close>

datatype 'w flow =
    Continue "msg list" "event list" 'w
  | Return "string option" "msg list" "event list" 'w
  | Raise exn "msg list" "event list" 'w


definition loop_step :: "'w env \<Rightarrow> msg list \<Rightarrow> event list \<Rightarrow> 'w \<Rightarrow> 'w flow" where
  "loop_step E msgs events w =
     (case responses_create E w msgs of
        (Inl x, w1) \<Rightarrow> Raise x msgs events w1
      | (Inr output_items, w1) \<Rightarrow>
          (let msgs1 = msgs @ map OutputItem output_items;
               tool_calls = filter is_function_call output_items;
               final_text_chunks = concat (map item_text_chunks output_items)
           in if tool_calls \<noteq> [] then
                (case run_calls E tool_calls msgs1 events w1 of
                   (Some x, msgs2, events2, w2) \<Rightarrow> Raise x msgs2 events2 w2
                 | (None, msgs2, events2, w2) \<Rightarrow> Continue msgs2 events2 w2)
              else
                (case final_text_of final_text_chunks of
                   None \<Rightarrow> Return None msgs1 events w1
                 | Some final_text \<Rightarrow>
                     Return (Some final_text) (msgs1 @ [RoleMsg ''assistant'' final_text]) events w1)))"

text \<open>The \<^verbatim>\<open>for\<close> loop: \<open>n\<close> passes at most, left early by a return or an exception.\<close>

fun iterate :: "'w env \<Rightarrow> nat \<Rightarrow> msg list \<Rightarrow> event list \<Rightarrow> 'w \<Rightarrow> 'w flow" where
  "iterate E 0 msgs events w = Continue msgs events w"
| "iterate E (Suc n) msgs events w =
     (case loop_step E msgs events w of
        Continue msgs' events' w' \<Rightarrow> iterate E n msgs' events' w'
      | r \<Rightarrow> r)"

definition sentinel :: string where
  "sentinel = ''Stopped: reached max_tool_steps.''"

text \<open>The result is the exception or \<open>(final_text, events)\<close>, with the transcript and the world.\<close>

definition run_tool_loop ::
  "'w env \<Rightarrow> agent_config \<Rightarrow> msg list \<Rightarrow> 'w
   \<Rightarrow> (exn + string option \<times> event list) \<times> msg list \<times> 'w" where
  "run_tool_loop E cfg msgs w =
     (case iterate E (nat (max_tool_steps cfg)) msgs [] w of
        Return final_text msgs' events w' \<Rightarrow> (Inr (final_text, events), msgs', w')
      | Raise x msgs' events w' \<Rightarrow> (Inl x, msgs', w')
      | Continue msgs' events w' \<Rightarrow> (Inr (Some sentinel, events), msgs', w'))"


section \<open>\<^verbatim>\<open>_extract_sql_from_model\<close>\<close>

text \<open>
  \<^verbatim>\<open>SQL_BLOCK_RE\<close> is three backticks and \<^verbatim>\<open>sql\<close> in any case, then \<^verbatim>\<open>\s*\<close>, then the
  lazy group \<^verbatim>\<open>(.*?)\<close> where the dot matches every character, then three backticks.
  \<^verbatim>\<open>search\<close> tries the start positions from left to right. At one position the greedy
  \<^verbatim>\<open>\s*\<close> first takes the whole run of white space and gives characters back one by one
  while the rest fails; the lazy group ends at the first closing fence.
\<close>

definition fence :: string where
  "fence = [CHR 0x60, CHR 0x60, CHR 0x60]"

definition fence_tag_at :: "string \<Rightarrow> bool" where
  "fence_tag_at s = (take 3 s = fence \<and> lower (take 3 (drop 3 s)) = ''sql'')"

fun find_fence_close :: "string \<Rightarrow> string option" where
  "find_fence_close [] = None"
| "find_fence_close (c # cs) =
     (if prefix fence (c # cs) then Some []
      else (case find_fence_close cs of None \<Rightarrow> None | Some g \<Rightarrow> Some (c # g)))"

fun first_some :: "'a option list \<Rightarrow> 'a option" where
  "first_some [] = None"
| "first_some (None # xs) = first_some xs"
| "first_some (Some x # xs) = Some x"

definition match_block_at :: "string \<Rightarrow> string option" where
  "match_block_at s =
     (if fence_tag_at s then
        (let rest = drop 6 s; k = length (takeWhile is_space rest)
         in first_some (map (\<lambda>j. find_fence_close (drop j rest)) (rev [0..<Suc k])))
      else None)"

fun SQL_BLOCK_search :: "string \<Rightarrow> string option" where
  "SQL_BLOCK_search [] = None"
| "SQL_BLOCK_search (c # cs) =
     (case match_block_at (c # cs) of
        Some g \<Rightarrow> Some g
      | None \<Rightarrow> SQL_BLOCK_search cs)"

definition extract_sql_from_model :: "string \<Rightarrow> string option" where
  "extract_sql_from_model text =
     (if text = [] then None
      else (case SQL_BLOCK_search text of
              Some g \<Rightarrow> Some (strip g)
            | None \<Rightarrow> (if contains ''select'' (lower text) then Some (strip text) else None)))"

text \<open>
  A fenced SQL block, in words of the text alone: an opening tag, some content, a
  closing fence.
\<close>

definition has_fenced_block :: "string \<Rightarrow> bool" where
  "has_fenced_block text =
     (\<exists>pre tag inner rest. text = pre @ tag @ inner @ fence @ rest \<and> length tag = 6 \<and> fence_tag_at tag)"

section \<open>\<^verbatim>\<open>SQLAgent.optimize_once\<close>\<close>

definition nl :: string where
  "nl = [CHR 0x0A]"

definition SYSTEM_PROMPT :: string where
  "SYSTEM_PROMPT = concat (map (\<lambda>l. l @ nl)
     [''You are a SQL optimization agent for DuckDB.'',
      [],
      ''Rules:'',
      ''- Do NOT assume tables or columns. Use tools to check existence and schema.'',
      ''- If the query references relations not found in DuckDB catalog, ask the user for definitions or how they are created.'',
      ''- Use EXPLAIN and benchmark (EXPLAIN ANALYZE) to evaluate before/after.'',
      ''- When calling tools, pass raw SQL only. Never include backticks, markdown headings, or commentary in tool arguments.'',
      ''- Preserve semantics: do not add LIMIT, sampling, or approximations unless user explicitly allows.'',
      ''- Prefer rewrites that reduce scanned columns/rows and intermediate join cardinality:'',
      ''  - Avoid SELECT *'',
      ''  - Push filters down'',
      ''  - Pre-aggregate before joins when safe'',
      ''  - Replace correlated subqueries with joins/CTEs'',
      ''  - Deduplicate repeated subqueries'',
      ''- Output: provide the optimized SQL and a short rationale. Keep it concise.'',
      [],
      ''Evaluation:'',
      ''- Compare median_ms from benchmark. Consider >=10% improvement meaningful.''])"

fun str_nat :: "nat \<Rightarrow> string" where
  "str_nat n = (if n < 10 then [char_of (48 + n)] else str_nat (n div 10) @ [char_of (48 + n mod 10)])"

declare str_nat.simps [simp del]

definition str_int :: "int \<Rightarrow> string" where
  "str_int i = (if i < 0 then ''-'' @ str_nat (nat (- i)) else str_nat (nat i))"

definition str_bool :: "bool \<Rightarrow> string" where
  "str_bool b = (if b then ''True'' else ''False'')"

text \<open>
  The two user messages, then the loop. The table references that the method also
  returns are read by no caller and are left out.
\<close>

definition optimize_once ::
  "'w env \<Rightarrow> agent_config \<Rightarrow> msg list \<Rightarrow> 'w \<Rightarrow> string \<Rightarrow> int \<Rightarrow> int \<Rightarrow> int \<Rightarrow> bool
   \<Rightarrow> (exn + string option \<times> event list) \<times> msg list \<times> 'w" where
  "optimize_once E cfg msgs w bad_sql runs warmup timeout_s allow_semantic_change =
     run_tool_loop E cfg
       (msgs @
        [RoleMsg ''user''
           (''Task: optimize the following SQL for DuckDB.'' @ nl @ nl @
            ''Allow semantic changes: '' @ str_bool allow_semantic_change @ nl @
            ''Benchmark settings: runs='' @ str_int runs @ '', warmup='' @ str_int warmup @
            '', timeout_s='' @ str_int timeout_s @ nl @ nl @
            ''SQL:'' @ nl @ fence @ ''sql'' @ nl @ bad_sql @ nl @ fence),
         RoleMsg ''user''
           (''Before rewriting, verify referenced relations and gather schema using tools. '' @
            ''Then benchmark the baseline. After rewriting, benchmark again.'')])
       w"

section \<open>The optimization loop of \<^verbatim>\<open>cli.optimize\<close>\<close>

text \<open>
  The command after its arguments are read: \<open>bad_sql\<close> is the query text. Console output
  is left out; what the command prints at the end is the state it returns here.
\<close>

record settings =
  s_runs :: int
  s_warmup :: int
  s_timeout_s :: int
  max_iters :: int
  min_improve_pct :: real

record report =
  rep_benchmark :: bench
  rep_model_text :: string
  rep_improve_pct :: real

record opt_state =
  best_sql :: string
  base_ms :: real
  best_report :: "report option"

datatype control = Break opt_state | Next opt_state

fun control_state :: "control \<Rightarrow> opt_state" where
  "control_state (Break st) = st"
| "control_state (Next st) = st"

text \<open>
  The body of the round from the candidate's benchmark record on. Dividing by a zero
  reference raises.
\<close>

definition consider_candidate ::
  "real \<Rightarrow> opt_state \<Rightarrow> string \<Rightarrow> string \<Rightarrow> bench \<Rightarrow> exn + control" where
  "consider_candidate threshold st cand_sql final_text cand_bench =
     (if \<not> bench_ok cand_bench then Inr (Next st)
      else
        (let cand_ms = median_ms cand_bench
         in if base_ms st = 0 then Inl ZeroDivisionError
            else
              (let improve_pct = (base_ms st - cand_ms) / base_ms st * 100;
                   st' = (if cand_ms < base_ms st
                          then st\<lparr>best_sql := cand_sql, base_ms := cand_ms,
                                  best_report := Some \<lparr>rep_benchmark = cand_bench,
                                                       rep_model_text = final_text,
                                                       rep_improve_pct = improve_pct\<rparr>\<rparr>
                          else st)
               in if improve_pct \<ge> threshold then Inr (Break st') else Inr (Next st'))))"

fun optimize_rounds ::
  "'w env \<Rightarrow> agent_config \<Rightarrow> settings \<Rightarrow> nat \<Rightarrow> opt_state \<Rightarrow> msg list \<Rightarrow> 'w
   \<Rightarrow> (exn + opt_state) \<times> msg list \<times> 'w" where
  "optimize_rounds E cfg S 0 st msgs w = (Inr st, msgs, w)"
| "optimize_rounds E cfg S (Suc n) st msgs w =
     (case optimize_once E cfg msgs w (best_sql st) (s_runs S) (s_warmup S) (s_timeout_s S) False of
        (Inl x, msgs1, w1) \<Rightarrow> (Inl x, msgs1, w1)
      | (Inr (out_final_text, events), msgs1, w1) \<Rightarrow>
          (let final_text = (case out_final_text of None \<Rightarrow> [] | Some t \<Rightarrow> t)
           in case extract_sql_from_model final_text of
                None \<Rightarrow> (Inr st, msgs1, w1)
              | Some cand_sql \<Rightarrow>
                  (if cand_sql = [] then (Inr st, msgs1, w1)
                   else
                     (case benchmark E w1 (PStr cand_sql) (PInt (s_runs S)) (PInt (s_warmup S))
                                     (PInt (s_timeout_s S)) of
                        (Inl x, w2) \<Rightarrow> (Inl x, msgs1, w2)
                      | (Inr cand_bench, w2) \<Rightarrow>
                          (case consider_candidate (min_improve_pct S) st cand_sql final_text
                                                   cand_bench of
                             Inl x \<Rightarrow> (Inl x, msgs1, w2)
                           | Inr (Break st') \<Rightarrow> (Inr st', msgs1, w2)
                           | Inr (Next st') \<Rightarrow> optimize_rounds E cfg S n st' msgs1 w2)))))"

definition optimize :: "'w env \<Rightarrow> settings \<Rightarrow> string \<Rightarrow> 'w \<Rightarrow> (exn + opt_state) \<times> msg list \<times> 'w" where
  "optimize E S bad_sql w =
     (let msgs = [RoleMsg ''system'' SYSTEM_PROMPT]
      in case benchmark E w (PStr bad_sql) (PInt (s_runs S)) (PInt (s_warmup S)) (PInt (s_timeout_s S)) of
           (Inl x, w1) \<Rightarrow> (Inl x, msgs, w1)
         | (Inr base_bench, w1) \<Rightarrow>
             (if \<not> bench_ok base_bench then (Inl (Exit 1), msgs, w1)
              else optimize_rounds E \<lparr>max_tool_steps = 35\<rparr> S (nat (max_iters S))
                     \<lparr>best_sql = bad_sql, base_ms = median_ms base_bench, best_report = None\<rparr>
                     msgs w1))"

section \<open>A scripted world for concrete runs\<close>

text \<open>
  The world is a pair of counters: gateway calls made and statements executed. The
  gateway answers its \<open>g\<close>-th call with \<open>script g\<close>; the \<open>e\<close>-th execution of \<open>sql\<close> gives
  \<open>engine sql e\<close>. The decoder knows the empty object only.
\<close>

definition scripted_env :: "(nat \<Rightarrow> item list) \<Rightarrow> (pyval \<Rightarrow> nat \<Rightarrow> ea_result) \<Rightarrow> (nat \<times> nat) env" where
  "scripted_env script engine =
     \<lparr>responses_create = (\<lambda>w msgs. (Inr (script (fst w)), (Suc (fst w), snd w))),
      loads = (\<lambda>s. if s = ''{}'' then Some (PDict []) else None),
      dumps = (\<lambda>v. case v of PDict ((k, PBool True) # kvs) \<Rightarrow> ''ok'' | _ \<Rightarrow> ''error''),
      list_tables = (\<lambda>w. (Inr (PDict [(''ok'', PBool True), (''tables'', PList [])]), w)),
      table_exists =
        (\<lambda>w n. (Inr (PDict [(''ok'', PBool True), (''name'', n), (''exists'', PBool False)]), w)),
      describe_relation =
        (\<lambda>w n c. (Inr (PDict [(''ok'', PBool False), (''error'', PStr ''Relation not found'')]), w)),
      explain = (\<lambda>w s. (PDict [(''ok'', PBool True), (''plan'', PStr ''SEQ_SCAN'')], w)),
      explain_analyze = (\<lambda>w sql t. (engine sql (snd w), (fst w, Suc (snd w))))\<rparr>"

text \<open>An engine whose executions take 30, 30, 10, 20, 20, ... milliseconds.\<close>

definition steady_engine :: "pyval \<Rightarrow> nat \<Rightarrow> ea_result" where
  "steady_engine sql e =
     EA_ok (if e \<le> 1 then 30 else if e = 2 then 10 else 20) None ''analyze''"

text \<open>Scripts and engines of the concrete runs below.\<close>

definition no_script :: "nat \<Rightarrow> item list" where
  "no_script g = []"

text \<open>One call of a tool that is not registered, then a final answer.\<close>

definition unknown_tool_script :: "nat \<Rightarrow> item list" where
  "unknown_tool_script g =
     (if g = 0 then [FunctionCall (Some ''row_count'') (Some (PStr ''{}'')) (Some ''call_1'') None]
      else [Message (ContentStr ''done'')])"

text \<open>A call of \<open>table_exists\<close> whose arguments are the empty object.\<close>

definition missing_argument_script :: "nat \<Rightarrow> item list" where
  "missing_argument_script g =
     (if g = 0 then [FunctionCall (Some ''table_exists'') (Some (PStr ''{}'')) (Some ''call_1'') None]
      else [Message (ContentStr ''done'')])"

text \<open>A call of \<open>explain\<close> whose arguments string is not JSON.\<close>

definition undecodable_script :: "nat \<Rightarrow> item list" where
  "undecodable_script g =
     (if g = 0 then [FunctionCall (Some ''explain'') (Some (PStr ''{sql: '')) (Some ''call_1'') None]
      else [Message (ContentStr ''done'')])"

text \<open>
  Two tool calls and a text fragment in one response: the first call has a \<open>call_id\<close>,
  the second only an \<open>id\<close>.
\<close>

definition two_calls_script :: "nat \<Rightarrow> item list" where
  "two_calls_script g =
     (if g = 0 then
        [FunctionCall (Some ''list_tables'') (Some (PStr ''{}'')) (Some ''call_1'') None,
         Message (ContentStr ''checking''),
         FunctionCall (Some ''row_count'') None None (Some ''fc_2'')]
      else [Message (ContentStr ''done'')])"



text \<open>
  The scenario of the specification: a join measured at 120 ms, a rewrite that selects
  one column measured at 90 ms, and a statement that the engine rejects.
\<close>

definition baseline_sql :: string where
  "baseline_sql = ''SELECT * FROM orders o JOIN customers c ON o.cid=c.id''"

definition narrow_sql :: string where
  "narrow_sql = ''SELECT o.id FROM orders o JOIN customers c ON o.cid=c.id''"

definition broken_sql :: string where
  "broken_sql = ''SELECT o.id FROM order o''"

definition shop_engine :: "pyval \<Rightarrow> nat \<Rightarrow> ea_result" where
  "shop_engine sql e =
     (if sql = PStr baseline_sql then EA_ok 120 None ''plan''
      else if sql = PStr narrow_sql then EA_ok 90 None ''plan''
      else EA_error ''EXPLAIN ANALYZE failed: Parser Error'')"

definition fenced_answer :: "string \<Rightarrow> string" where
  "fenced_answer sql = ''Rewritten:'' @ nl @ fence @ ''sql'' @ nl @ sql @ nl @ fence"

definition narrow_script :: "nat \<Rightarrow> item list" where
  "narrow_script g = [Message (ContentList [Chunk (Some ''output_text'') (Some (fenced_answer narrow_sql))])]"

definition retry_script :: "nat \<Rightarrow> item list" where
  "retry_script g =
     [Message (ContentList [Chunk (Some ''output_text'')
        (Some (fenced_answer (if g = 0 then broken_sql else narrow_sql)))])]"

definition prose_script :: "nat \<Rightarrow> item list" where
  "prose_script g = [Message (ContentStr ''No faster form found.'')]"

definition shop_settings :: settings where
  "shop_settings = \<lparr>s_runs = 3, s_warmup = 1, s_timeout_s = 60, max_iters = 2, min_improve_pct = 10\<rparr>"

section \<open>The benchmark record\<close>

lemma warmup_loop_all_succeed:
  "all_succeed E (n + m) sql t w \<Longrightarrow>
   \<exists>w1. warmup_loop E n sql t w = (None, w1) \<and> all_succeed E m sql t w1"
proof (induction n arbitrary: w)
  case 0
  then show ?case by simp
next
  case (Suc n)
  obtain r w' where r: "explain_analyze E w sql t = (r, w')"
    by (cases "explain_analyze E w sql t")
  with Suc.prems obtain el tot an
    where ok: "r = EA_ok el tot an" and rest: "all_succeed E (n + m) sql t w'"
    by (cases r) auto
  from Suc.IH [OF rest] r ok show ?case by simp
qed

lemma measured_loop_all_succeed:
  "all_succeed E n sql t w \<Longrightarrow>
   \<exists>ts' la' lt' w2. measured_loop E n sql t ts la lt w = (Inr (ts @ ts', la', lt'), w2) \<and>
                     length ts' = n"
proof (induction n arbitrary: w ts la lt)
  case 0
  then show ?case by simp
next
  case (Suc n)
  obtain r w' where r: "explain_analyze E w sql t = (r, w')"
    by (cases "explain_analyze E w sql t")
  with Suc.prems obtain el tot an
    where ok: "r = EA_ok el tot an" and rest: "all_succeed E n sql t w'"
    by (cases r) auto
  from Suc.IH [OF rest, of "ts @ [el]" "Some an" tot]
  obtain ts' la' lt' w2 where
    "measured_loop E n sql t (ts @ [el]) (Some an) tot w' = (Inr ((ts @ [el]) @ ts', la', lt'), w2)"
    "length ts' = n" by blast
  then have "measured_loop E (Suc n) sql t ts la lt w = (Inr (ts @ (el # ts'), la', lt'), w2) \<and>
             length (el # ts') = Suc n"
    using r ok by simp
  then show ?case by blast
qed

text \<open>
  C10. When the warm-up and the measured executions all succeed, \<open>benchmark\<close> with
  \<open>runs \<ge> 1\<close> returns an \<open>ok\<close> record whose \<open>elapsed_ms\<close> has exactly \<open>runs\<close> samples and whose
  \<open>median_ms\<close> is the element at index \<open>runs div 2\<close> of the sorted samples (an index inside
  the list). With \<open>runs \<le> 0\<close>, in particular \<open>runs = 0\<close>, the index falls into the empty
  list and the call raises \<open>IndexError\<close> instead of returning a record.
\<close>

theorem benchmark_all_succeed:
  assumes "all_succeed E (nat warmup + nat runs) sql timeout_s w"
  shows "(1 \<le> runs \<longrightarrow>
           (\<exists>b w'. benchmark E w sql (PInt runs) (PInt warmup) timeout_s = (Inr b, w') \<and>
                  bench_ok b \<and> int (length (elapsed_ms b)) = runs \<and>
                  nat (runs div 2) < length (sort (elapsed_ms b)) \<and>
                  median_ms b = sort (elapsed_ms b) ! nat (runs div 2))) \<and>
         (runs \<le> 0 \<longrightarrow>
           (\<exists>w'. benchmark E w sql (PInt runs) (PInt warmup) timeout_s = (Inl IndexError, w')))"
proof -
  from warmup_loop_all_succeed [OF assms] obtain w1 where
    wu: "warmup_loop E (nat warmup) sql timeout_s w = (None, w1)" and
    ok1: "all_succeed E (nat runs) sql timeout_s w1" by blast
  from measured_loop_all_succeed [OF ok1, of "[]" None None] obtain ts la lt w2 where
    ms: "measured_loop E (nat runs) sql timeout_s [] None None w1 = (Inr (ts, la, lt), w2)" and
    len: "length ts = nat runs" by auto
  show ?thesis
  proof (intro conjI impI)
    assume pos: "1 \<le> runs"
    then have idx: "length ts div 2 < length (sort ts)" using len by simp
    have eq: "nat (runs div 2) = length ts div 2" using len pos by (simp add: nat_div_distrib)
    have "benchmark E w sql (PInt runs) (PInt warmup) timeout_s =
            (Inr (BenchOk (PInt runs) (PInt warmup) ts (sort ts ! (length ts div 2)) la lt), w2)"
      using wu ms idx by (simp add: benchmark_def py_index_def)
    then show "\<exists>b w'. benchmark E w sql (PInt runs) (PInt warmup) timeout_s = (Inr b, w') \<and>
                  bench_ok b \<and> int (length (elapsed_ms b)) = runs \<and>
                  nat (runs div 2) < length (sort (elapsed_ms b)) \<and>
                  median_ms b = sort (elapsed_ms b) ! nat (runs div 2)"
      using len pos eq by simp
  next
    assume "runs \<le> 0"
    then have "ts = []" using len by simp
    then show "\<exists>w'. benchmark E w sql (PInt runs) (PInt warmup) timeout_s = (Inl IndexError, w')"
      using wu ms by (simp add: benchmark_def py_index_def)
  qed
qed

theorem benchmark_all_succeed_witness:
  "all_succeed (scripted_env no_script steady_engine) (nat 1 + nat 3) (PStr ''SELECT 1'') (PInt 60) (0, 0) \<and>
   (1::int) \<le> 3 \<and>
   (\<exists>b w'. benchmark (scripted_env no_script steady_engine) (0, 0) (PStr ''SELECT 1'')
              (PInt 3) (PInt 1) (PInt 60) = (Inr b, w') \<and>
           bench_ok b \<and> int (length (elapsed_ms b)) = 3 \<and>
           nat (3 div 2) < length (sort (elapsed_ms b)) \<and>
           median_ms b = sort (elapsed_ms b) ! nat (3 div 2)) \<and>
   all_succeed (scripted_env no_script steady_engine) (nat 1 + nat 0) (PStr ''SELECT 1'') (PInt 60) (0, 0) \<and>
   (0::int) \<le> 0 \<and>
   (\<exists>w'. benchmark (scripted_env no_script steady_engine) (0, 0) (PStr ''SELECT 1'')
            (PInt 0) (PInt 1) (PInt 60) = (Inl IndexError, w'))"
proof -
  have three: "all_succeed (scripted_env no_script steady_engine) (nat 1 + nat 3)
                 (PStr ''SELECT 1'') (PInt 60) (0, 0)"
    by code_simp
  have none: "all_succeed (scripted_env no_script steady_engine) (nat 1 + nat 0)
                (PStr ''SELECT 1'') (PInt 60) (0, 0)"
    by code_simp
  have le3: "(1::int) \<le> 3" and le0: "(0::int) \<le> 0" by simp_all
  note a = benchmark_all_succeed [OF three, THEN conjunct1, THEN mp, OF le3]
  note b = benchmark_all_succeed [OF none, THEN conjunct2, THEN mp, OF le0]
  show ?thesis using three none le3 le0 a b by (intro conjI)
qed

section \<open>Dispatch by name\<close>

lemma run_calls_unknown:
  "\<forall>c \<in> set calls. is_function_call c \<and> fc_name c \<notin> Some ` set registered_tools \<Longrightarrow>
   run_calls E calls msgs events w =
     (None,
      msgs @ map (\<lambda>c. FunctionCallOutput (call_ident c)
                        (dumps E (unknown_tool (fc_name c) (decode_args E (fc_arguments c))))) calls,
      events @ concat (map (\<lambda>c. [ToolCall (fc_name c) (decode_args E (fc_arguments c)),
                                   ToolResult (fc_name c) (unknown_tool (fc_name c) (decode_args E (fc_arguments c)))]) calls),
      w)"
proof (induction calls arbitrary: msgs events)
  case Nil
  then show ?case by simp
next
  case (Cons c calls)
  then obtain n a cid i where c: "c = FunctionCall n a cid i" by (cases c) auto
  with Cons.prems have n: "n \<notin> Some ` set registered_tools" by simp
  then have d: "dispatch E w n (decode_args E a) = (Inr (unknown_tool n (decode_args E a)), w)"
    by (auto simp: dispatch_def registered_tools_def)
  from Cons.prems have rest: "\<forall>c \<in> set calls. is_function_call c \<and> fc_name c \<notin> Some ` set registered_tools"
    by simp
  show ?case using Cons.IH [OF rest] c d by (simp add: Let_def)
qed

text \<open>
  C5. Dispatching a name that is not one of the five registered tool names raises nothing:
  it returns the record \<open>ok: False\<close>, \<open>error: Unknown tool: name\<close>, \<open>name\<close>, \<open>args\<close> and leaves
  the world alone. A pass of the loop whose tool calls all name unregistered tools appends
  one result per call and continues with the next pass.
\<close>

theorem dispatch_unknown_tool:
  "(name \<notin> Some ` set registered_tools \<longrightarrow>
      dispatch E w name args =
        (Inr (PDict [(''ok'', PBool False), (''error'', PStr (''Unknown tool: '' @ name_str name)),
                     (''name'', name_val name), (''args'', args)]), w)) \<and>
   (responses_create E w msgs = (Inr items, w1) \<longrightarrow>
    filter is_function_call items \<noteq> [] \<longrightarrow>
    (\<forall>c \<in> set items. is_function_call c \<longrightarrow> fc_name c \<notin> Some ` set registered_tools) \<longrightarrow>
      (\<exists>events'. loop_step E msgs events w =
         Continue (msgs @ map OutputItem items @
                   map (\<lambda>c. FunctionCallOutput (call_ident c)
                          (dumps E (unknown_tool (fc_name c) (decode_args E (fc_arguments c)))))
                       (filter is_function_call items))
                  events' w1))"
proof (intro conjI impI)
  assume "name \<notin> Some ` set registered_tools"
  then show "dispatch E w name args =
        (Inr (PDict [(''ok'', PBool False), (''error'', PStr (''Unknown tool: '' @ name_str name)),
                     (''name'', name_val name), (''args'', args)]), w)"
    by (auto simp: dispatch_def registered_tools_def unknown_tool_def)
next
  assume r: "responses_create E w msgs = (Inr items, w1)"
    and ne: "filter is_function_call items \<noteq> []"
    and un: "\<forall>c \<in> set items. is_function_call c \<longrightarrow> fc_name c \<notin> Some ` set registered_tools"
  from un have "\<forall>c \<in> set (filter is_function_call items).
                  is_function_call c \<and> fc_name c \<notin> Some ` set registered_tools" by simp
  then have rc: "run_calls E (filter is_function_call items) (msgs @ map OutputItem items) events w1 =
     (None,
      (msgs @ map OutputItem items) @ map (\<lambda>c. FunctionCallOutput (call_ident c)
                        (dumps E (unknown_tool (fc_name c) (decode_args E (fc_arguments c)))))
                   (filter is_function_call items),
      events @ concat (map (\<lambda>c. [ToolCall (fc_name c) (decode_args E (fc_arguments c)),
                                   ToolResult (fc_name c) (unknown_tool (fc_name c) (decode_args E (fc_arguments c)))])
                   (filter is_function_call items)),
      w1)"
    by (rule run_calls_unknown)
  show "\<exists>events'. loop_step E msgs events w =
         Continue (msgs @ map OutputItem items @
                   map (\<lambda>c. FunctionCallOutput (call_ident c)
                          (dumps E (unknown_tool (fc_name c) (decode_args E (fc_arguments c)))))
                       (filter is_function_call items))
                  events' w1"
    using r ne by (simp add: loop_step_def Let_def rc)
qed

theorem dispatch_unknown_tool_witness:
  "Some ''row_count'' \<notin> Some ` set registered_tools \<and>
   dispatch (scripted_env unknown_tool_script steady_engine) (0, 0) (Some ''row_count'') (PDict []) =
     (Inr (PDict [(''ok'', PBool False), (''error'', PStr ''Unknown tool: row_count''),
                  (''name'', PStr ''row_count''), (''args'', PDict [])]), (0, 0)) \<and>
   responses_create (scripted_env unknown_tool_script steady_engine) (0, 0) [] =
     (Inr (unknown_tool_script 0), (1, 0)) \<and>
   filter is_function_call (unknown_tool_script 0) \<noteq> [] \<and>
   (\<exists>events'. loop_step (scripted_env unknown_tool_script steady_engine) [] [] (0, 0) =
      Continue [OutputItem (FunctionCall (Some ''row_count'') (Some (PStr ''{}'')) (Some ''call_1'') None),
                FunctionCallOutput (Some ''call_1'') ''error'']
               events' (1, 0))"
proof -
  let ?E = "scripted_env unknown_tool_script steady_engine"
  have h1: "Some ''row_count'' \<notin> Some ` set registered_tools"
    by (simp add: registered_tools_def)
  have h2: "responses_create ?E (0, 0) [] = (Inr (unknown_tool_script 0), (1, 0))"
    by (simp add: scripted_env_def)
  have h3: "filter is_function_call (unknown_tool_script 0) \<noteq> []"
    by (simp add: unknown_tool_script_def)
  have h4: "\<forall>c \<in> set (unknown_tool_script 0).
              is_function_call c \<longrightarrow> fc_name c \<notin> Some ` set registered_tools"
    by (simp add: unknown_tool_script_def registered_tools_def)
  note a = dispatch_unknown_tool [of "Some ''row_count''" ?E "(0, 0)" "PDict []" "[]"
             "unknown_tool_script 0" "(1, 0)" "[]", THEN conjunct1, THEN mp, OF h1]
  note b = dispatch_unknown_tool [of "Some ''row_count''" ?E "(0, 0)" "PDict []" "[]"
             "unknown_tool_script 0" "(1, 0)" "[]", THEN conjunct2, THEN mp, THEN mp, THEN mp,
             OF h2 h3 h4]
  have c: "dumps ?E (unknown_tool (Some ''row_count'') (decode_args ?E (Some (PStr ''{}'')))) = ''error''"
    by (simp add: scripted_env_def unknown_tool_def)
  from a have a': "dispatch ?E (0, 0) (Some ''row_count'') (PDict []) =
     (Inr (PDict [(''ok'', PBool False), (''error'', PStr ''Unknown tool: row_count''),
                  (''name'', PStr ''row_count''), (''args'', PDict [])]), (0, 0))"
    by simp
  from b c have b': "\<exists>events'. loop_step ?E [] [] (0, 0) =
      Continue [OutputItem (FunctionCall (Some ''row_count'') (Some (PStr ''{}'')) (Some ''call_1'') None),
                FunctionCallOutput (Some ''call_1'') ''error'']
               events' (1, 0)"
    by (simp add: unknown_tool_script_def)
  show ?thesis using h1 a' h2 h3 b' by (intro conjI)
qed

text \<open>
  C4. A call of a registered tool without its required argument: binding the arguments
  raises \<open>TypeError\<close> before the tool runs, nothing catches it, and the loop ends with the
  exception. The transcript holds the request and no tool result.
\<close>

theorem missing_argument_raises:
  "dispatch E w (Some ''table_exists'') (PDict []) = (Inl TypeError, w) \<and>
   run_tool_loop (scripted_env missing_argument_script steady_engine) \<lparr>max_tool_steps = 30\<rparr> [] (0, 0) =
     (Inl TypeError,
      [OutputItem (FunctionCall (Some ''table_exists'') (Some (PStr ''{}'')) (Some ''call_1'') None)],
      (1, 0))"
proof
  show "dispatch E w (Some ''table_exists'') (PDict []) = (Inl TypeError, w)"
    by (simp add: dispatch_def call_kwargs_def)
  show "run_tool_loop (scripted_env missing_argument_script steady_engine) \<lparr>max_tool_steps = 30\<rparr> [] (0, 0) =
     (Inl TypeError,
      [OutputItem (FunctionCall (Some ''table_exists'') (Some (PStr ''{}'')) (Some ''call_1'') None)],
      (1, 0))"
    by code_simp
qed

text \<open>
  C9. An arguments string that does not decode: the decoded arguments are the empty
  mapping and the tool is dispatched with it. For \<open>explain\<close>, which requires \<open>sql\<close>, the
  binding raises \<open>TypeError\<close>; the loop ends with the exception and appends no tool result.
\<close>

theorem undecodable_arguments_abort:
  "decode_args (scripted_env undecodable_script steady_engine) (Some (PStr ''{sql: '')) = PDict [] \<and>
   dispatch E w (Some ''explain'') (PDict []) = (Inl TypeError, w) \<and>
   run_tool_loop (scripted_env undecodable_script steady_engine) \<lparr>max_tool_steps = 30\<rparr> [] (0, 0) =
     (Inl TypeError,
      [OutputItem (FunctionCall (Some ''explain'') (Some (PStr ''{sql: '')) (Some ''call_1'') None)],
      (1, 0))"
proof (intro conjI)
  show "decode_args (scripted_env undecodable_script steady_engine) (Some (PStr ''{sql: '')) = PDict []"
    by code_simp
  show "dispatch E w (Some ''explain'') (PDict []) = (Inl TypeError, w)"
    by (simp add: dispatch_def call_kwargs_def)
  show "run_tool_loop (scripted_env undecodable_script steady_engine) \<lparr>max_tool_steps = 30\<rparr> [] (0, 0) =
     (Inl TypeError,
      [OutputItem (FunctionCall (Some ''explain'') (Some (PStr ''{sql: '')) (Some ''call_1'') None)],
      (1, 0))"
    by code_simp
qed

section \<open>The dialogue loop\<close>

lemma run_calls_shape:
  "run_calls E calls msgs events w = (r, msgs', events', w') \<Longrightarrow>
   \<exists>outs evs. msgs' = msgs @ outs \<and> events' = events @ evs \<and>
     (r = None \<longrightarrow>
        list_all2 (\<lambda>c m. \<exists>out. m = FunctionCallOutput (call_ident c) out) calls outs \<and>
        length evs = 2 * length calls)"
proof (induction calls arbitrary: msgs events w)
  case Nil
  then show ?case by simp
next
  case (Cons c calls)
  let ?name = "case c of FunctionCall n _ _ _ \<Rightarrow> n | _ \<Rightarrow> None"
  let ?args = "decode_args E (case c of FunctionCall _ a _ _ \<Rightarrow> a | _ \<Rightarrow> None)"
  obtain d w1 where d: "dispatch E w ?name ?args = (d, w1)"
    by (cases "dispatch E w ?name ?args")
  show ?case
  proof (cases d)
    case (Inl x)
    with Cons.prems d show ?thesis by (auto simp: Let_def)
  next
    case (Inr result)
    with Cons.prems d have
      "run_calls E calls (msgs @ [FunctionCallOutput (call_ident c) (dumps E result)])
         ((events @ [ToolCall ?name ?args]) @ [ToolResult ?name result]) w1 = (r, msgs', events', w')"
      by (simp add: Let_def)
    from Cons.IH [OF this] obtain outs evs where
      m: "msgs' = (msgs @ [FunctionCallOutput (call_ident c) (dumps E result)]) @ outs" and
      e: "events' = ((events @ [ToolCall ?name ?args]) @ [ToolResult ?name result]) @ evs" and
      p: "r = None \<longrightarrow>
            list_all2 (\<lambda>c m. \<exists>out. m = FunctionCallOutput (call_ident c) out) calls outs \<and>
            length evs = 2 * length calls"
      by blast
    have "msgs' = msgs @ (FunctionCallOutput (call_ident c) (dumps E result) # outs)"
      using m by simp
    moreover have "events' = events @ (ToolCall ?name ?args # ToolResult ?name result # evs)"
      using e by simp
    moreover have "r = None \<longrightarrow>
        list_all2 (\<lambda>c m. \<exists>out. m = FunctionCallOutput (call_ident c) out) (c # calls)
          (FunctionCallOutput (call_ident c) (dumps E result) # outs) \<and>
        length (ToolCall ?name ?args # ToolResult ?name result # evs) = 2 * length (c # calls)"
      using p by simp
    ultimately show ?thesis by blast
  qed
qed

lemma carries_count:
  "list_all2 (\<lambda>c m. \<exists>out. m = FunctionCallOutput (call_ident c) out) calls outs \<Longrightarrow>
   length (filter (carries k) outs) = length (filter (\<lambda>c. call_ident c = k) calls)"
  by (induction rule: list_all2_induct) auto

lemma notin_image:
  assumes "f a \<notin> f ` set xs" and "c \<in> set xs"
  shows "f c \<noteq> f a"
proof
  assume "f c = f a"
  then have "f a = f c" by (rule sym)
  then have "f a \<in> f ` set xs" using assms(2) by (rule image_eqI)
  with assms(1) show False by contradiction
qed

lemma distinct_count_one:
  "distinct (map f xs) \<Longrightarrow> x \<in> set xs \<Longrightarrow> length (filter (\<lambda>c. f c = f x) xs) = 1"
proof (induction xs)
  case Nil
  then show ?case by simp
next
  case (Cons a xs)
  from Cons.prems(1) have na: "f a \<notin> f ` set xs" and d: "distinct (map f xs)" by simp_all
  show ?case
  proof (cases "x = a")
    case True
    have "filter (\<lambda>c. f c = f a) xs = []"
      unfolding filter_empty_conv using notin_image [OF na] by blast
    with True show ?thesis by simp
  next
    case False
    with Cons.prems(2) have x: "x \<in> set xs" by simp
    from notin_image [OF na x] have "f a \<noteq> f x" by simp
    with Cons.IH [OF d x] show ?thesis by simp
  qed
qed

lemma loop_step_Continue:
  assumes "loop_step E msgs events w = Continue msgs' events' w'"
  shows "\<exists>items outs evs w1.
           responses_create E w msgs = (Inr items, w1) \<and>
           filter is_function_call items \<noteq> [] \<and>
           msgs' = msgs @ map OutputItem items @ outs \<and>
           events' = events @ evs \<and>
           length evs = 2 * length (filter is_function_call items) \<and>
           list_all2 (\<lambda>c m. \<exists>out. m = FunctionCallOutput (call_ident c) out)
             (filter is_function_call items) outs"
proof -
  obtain r w1 where r: "responses_create E w msgs = (r, w1)"
    by (cases "responses_create E w msgs")
  with assms obtain items where items: "r = Inr items"
    by (cases r) (auto simp: loop_step_def)
  let ?calls = "filter is_function_call items"
  from assms r items have ne: "?calls \<noteq> []"
    by (auto simp: loop_step_def Let_def split: option.splits)
  obtain x m2 e2 w2 where rc: "run_calls E ?calls (msgs @ map OutputItem items) events w1 = (x, m2, e2, w2)"
    by (cases "run_calls E ?calls (msgs @ map OutputItem items) events w1") auto
  with assms r items ne have "x = None" "m2 = msgs'" "e2 = events'"
    by (auto simp: loop_step_def Let_def split: option.splits)
  with run_calls_shape [OF rc] r items ne show ?thesis by auto
qed

text \<open>
  C1. A pass of the loop that goes on to another gateway call leaves the transcript as
  the old transcript, the response items unchanged, and then one tool result for each
  tool-invocation request of the response, in the order of the requests, each carrying
  the identifier of its request: the \<open>call_id\<close> when there is one, the \<open>id\<close> when the
  \<open>call_id\<close> is absent. When the identifiers of the requests differ from each other,
  as call identifiers do, exactly one result carries the identifier of each request. The
  remaining passes, and so the next gateway call, start from that transcript.
\<close>

theorem tool_results_pair_with_requests:
  assumes "loop_step E msgs events w = Continue msgs' events' w'"
  shows "\<exists>items outs w1.
           responses_create E w msgs = (Inr items, w1) \<and>
           msgs' = msgs @ map OutputItem items @ outs \<and>
           list_all2 (\<lambda>c m. \<exists>out. m = FunctionCallOutput (call_ident c) out)
             (filter is_function_call items) outs \<and>
           (distinct (map call_ident (filter is_function_call items)) \<longrightarrow>
              (\<forall>c \<in> set (filter is_function_call items).
                 length (filter (carries (call_ident c)) outs) = 1)) \<and>
           iterate E (Suc n) msgs events w = iterate E n msgs' events' w' \<and>
           (\<forall>nm a cid i. cid \<noteq> [] \<longrightarrow> call_ident (FunctionCall nm a (Some cid) i) = Some cid) \<and>
           (\<forall>nm a i. call_ident (FunctionCall nm a None i) = i)"
proof -
  from loop_step_Continue [OF assms] obtain items outs w1 where
    r: "responses_create E w msgs = (Inr items, w1)" and
    m: "msgs' = msgs @ map OutputItem items @ outs" and
    p: "list_all2 (\<lambda>c m. \<exists>out. m = FunctionCallOutput (call_ident c) out)
             (filter is_function_call items) outs"
    by blast
  have "distinct (map call_ident (filter is_function_call items)) \<longrightarrow>
              (\<forall>c \<in> set (filter is_function_call items).
                 length (filter (carries (call_ident c)) outs) = 1)"
    using carries_count [OF p] distinct_count_one [of call_ident "filter is_function_call items"]
    by simp
  moreover have "iterate E (Suc n) msgs events w = iterate E n msgs' events' w'"
    using assms by simp
  moreover have "\<forall>nm a cid i. cid \<noteq> [] \<longrightarrow> call_ident (FunctionCall nm a (Some cid) i) = Some cid"
    by simp
  moreover have "\<forall>nm a i. call_ident (FunctionCall nm a None i) = i"
    by simp
  ultimately show ?thesis using r m p by blast
qed

theorem tool_results_pair_with_requests_witness:
  "loop_step (scripted_env two_calls_script steady_engine) [RoleMsg ''user'' ''go''] [] (0, 0) =
     Continue
       [RoleMsg ''user'' ''go'',
        OutputItem (FunctionCall (Some ''list_tables'') (Some (PStr ''{}'')) (Some ''call_1'') None),
        OutputItem (Message (ContentStr ''checking'')),
        OutputItem (FunctionCall (Some ''row_count'') None None (Some ''fc_2'')),
        FunctionCallOutput (Some ''call_1'') ''ok'',
        FunctionCallOutput (Some ''fc_2'') ''error'']
       [ToolCall (Some ''list_tables'') (PDict []),
        ToolResult (Some ''list_tables'') (PDict [(''ok'', PBool True), (''tables'', PList [])]),
        ToolCall (Some ''row_count'') (PDict []),
        ToolResult (Some ''row_count'') (unknown_tool (Some ''row_count'') (PDict []))]
       (1, 0) \<and>
   (\<exists>outs. [RoleMsg ''user'' ''go'',
             OutputItem (FunctionCall (Some ''list_tables'') (Some (PStr ''{}'')) (Some ''call_1'') None),
             OutputItem (Message (ContentStr ''checking'')),
             OutputItem (FunctionCall (Some ''row_count'') None None (Some ''fc_2'')),
             FunctionCallOutput (Some ''call_1'') ''ok'',
             FunctionCallOutput (Some ''fc_2'') ''error''] =
            [RoleMsg ''user'' ''go''] @ map OutputItem (two_calls_script 0) @ outs \<and>
           distinct (map call_ident (filter is_function_call (two_calls_script 0))) \<and>
           list_all (\<lambda>c. length (filter (carries (call_ident c)) outs) = 1)
             (filter is_function_call (two_calls_script 0)))"
proof -
  let ?E = "scripted_env two_calls_script steady_engine"
  let ?M = "[RoleMsg ''user'' ''go'',
        OutputItem (FunctionCall (Some ''list_tables'') (Some (PStr ''{}'')) (Some ''call_1'') None),
        OutputItem (Message (ContentStr ''checking'')),
        OutputItem (FunctionCall (Some ''row_count'') None None (Some ''fc_2'')),
        FunctionCallOutput (Some ''call_1'') ''ok'',
        FunctionCallOutput (Some ''fc_2'') ''error'']"
  let ?EV = "[ToolCall (Some ''list_tables'') (PDict []),
        ToolResult (Some ''list_tables'') (PDict [(''ok'', PBool True), (''tables'', PList [])]),
        ToolCall (Some ''row_count'') (PDict []),
        ToolResult (Some ''row_count'') (unknown_tool (Some ''row_count'') (PDict []))]"
  have step: "loop_step ?E [RoleMsg ''user'' ''go''] [] (0, 0) = Continue ?M ?EV (1, 0)"
    by code_simp
  have r: "responses_create ?E (0, 0) [RoleMsg ''user'' ''go''] = (Inr (two_calls_script 0), (1, 0))"
    by (simp add: scripted_env_def)
  have d: "distinct (map call_ident (filter is_function_call (two_calls_script 0)))"
    by (simp add: two_calls_script_def)
  from tool_results_pair_with_requests [OF step, of 0] obtain items outs w1 where
    r': "responses_create ?E (0, 0) [RoleMsg ''user'' ''go''] = (Inr items, w1)" and
    m: "?M = [RoleMsg ''user'' ''go''] @ map OutputItem items @ outs" and
    one: "distinct (map call_ident (filter is_function_call items)) \<longrightarrow>
            (\<forall>c \<in> set (filter is_function_call items).
               length (filter (carries (call_ident c)) outs) = 1)"
    by blast
  from r r' have items: "items = two_calls_script 0" by simp
  from one d items have
    "list_all (\<lambda>c. length (filter (carries (call_ident c)) outs) = 1)
       (filter is_function_call (two_calls_script 0))"
    by (simp only: list_all_iff) blast
  with m d items step show ?thesis by blast
qed

section \<open>The step budget\<close>












section \<open>The optimization loop\<close>

lemma consider_candidate_cases:
  assumes "consider_candidate thr st c t b = Inr ctl"
  shows "control_state ctl = st \<or>
         (bench_ok b \<and> median_ms b < base_ms st \<and>
          control_state ctl =
            st\<lparr>best_sql := c, base_ms := median_ms b,
               best_report := Some \<lparr>rep_benchmark = b, rep_model_text = t,
                 rep_improve_pct = (base_ms st - median_ms b) / base_ms st * 100\<rparr>\<rparr>)"
  using assms by (auto simp: consider_candidate_def Let_def split: if_splits)

lemma consider_candidate_mono:
  assumes "consider_candidate thr st c t b = Inr ctl"
  shows "base_ms (control_state ctl) \<le> base_ms st \<and>
         (control_state ctl \<noteq> st \<longrightarrow> base_ms (control_state ctl) < base_ms st)"
  using consider_candidate_cases [OF assms] by auto

lemma optimize_rounds_mono:
  "optimize_rounds E cfg S n st msgs w = (Inr st', msgs', w') \<Longrightarrow>
   base_ms st' \<le> base_ms st \<and> (st' \<noteq> st \<longrightarrow> base_ms st' < base_ms st)"
proof (induction n arbitrary: st msgs w)
  case 0
  then show ?case by simp
next
  case (Suc n)
  obtain r msgs1 w1 where once:
    "optimize_once E cfg msgs w (best_sql st) (s_runs S) (s_warmup S) (s_timeout_s S) False = (r, msgs1, w1)"
    by (cases "optimize_once E cfg msgs w (best_sql st) (s_runs S) (s_warmup S) (s_timeout_s S) False") auto
  show ?case
  proof (cases r)
    case (Inl x)
    with Suc.prems once show ?thesis by simp
  next
    case (Inr out)
    obtain ft ev where out: "out = (ft, ev)" by (cases out)
    let ?text = "case ft of None \<Rightarrow> [] | Some t \<Rightarrow> t"
    show ?thesis
    proof (cases "extract_sql_from_model ?text")
      case None
      with Suc.prems once Inr out show ?thesis by simp
    next
      case (Some cand)
      show ?thesis
      proof (cases "cand = []")
        case True
        with Suc.prems once Inr out Some show ?thesis by simp
      next
        case False
        obtain rb w2 where bm:
          "benchmark E w1 (PStr cand) (PInt (s_runs S)) (PInt (s_warmup S)) (PInt (s_timeout_s S)) = (rb, w2)"
          by (cases "benchmark E w1 (PStr cand) (PInt (s_runs S)) (PInt (s_warmup S)) (PInt (s_timeout_s S))")
        show ?thesis
        proof (cases rb)
          case (Inl x)
          with Suc.prems once \<open>r = Inr out\<close> out Some False bm show ?thesis by simp
        next
          case b: (Inr b)
          show ?thesis
          proof (cases "consider_candidate (min_improve_pct S) st cand ?text b")
            case (Inl x)
            with Suc.prems once \<open>r = Inr out\<close> out Some False bm b show ?thesis by simp
          next
            case ctl: (Inr ctl)
            note m = consider_candidate_mono [OF ctl]
            show ?thesis
            proof (cases ctl)
              case (Break st1)
              with Suc.prems once \<open>r = Inr out\<close> out Some False bm b ctl have "st' = st1" by simp
              with m Break show ?thesis by simp
            next
              case (Next st1)
              with Suc.prems once \<open>r = Inr out\<close> out Some False bm b ctl
              have "optimize_rounds E cfg S n st1 msgs1 w2 = (Inr st', msgs', w')" by simp
              from Suc.IH [OF this] m Next show ?thesis by auto
            qed
          qed
        qed
      qed
    qed
  qed
qed

lemma optimize_rounds_best_sql:
  "optimize_rounds E cfg S n st msgs w = (Inr st', msgs', w') \<Longrightarrow>
   best_sql st' \<noteq> best_sql st \<Longrightarrow> base_ms st' < base_ms st"
  using optimize_rounds_mono [of E cfg S n st msgs w st' msgs' w'] by auto

text \<open>
  C2. The best candidate and the reference change only when the candidate's median is
  strictly below the reference, and then they become the candidate and its median; a
  median equal to the reference leaves the state as it is. So the reference after any
  number of rounds is at most the reference before them, and the state that a successful
  run returns has a reference at most the measured median of the baseline, strictly
  below it when the best SQL is not the input.
\<close>

theorem reference_never_regresses:
  "(consider_candidate thr st c t b = Inr ctl \<longrightarrow>
      control_state ctl = st \<or>
      (bench_ok b \<and> median_ms b < base_ms st \<and>
       best_sql (control_state ctl) = c \<and> base_ms (control_state ctl) = median_ms b)) \<and>
   (consider_candidate thr st c t b = Inr ctl \<longrightarrow> median_ms b = base_ms st \<longrightarrow>
      control_state ctl = st) \<and>
   (optimize_rounds E cfg S n st msgs w = (Inr st', msgs', w') \<longrightarrow>
      base_ms st' \<le> base_ms st \<and> (st' \<noteq> st \<longrightarrow> base_ms st' < base_ms st)) \<and>
   (optimize E S bad_sql w = (Inr st', msgs', w') \<longrightarrow>
      (\<exists>base_bench w1.
         benchmark E w (PStr bad_sql) (PInt (s_runs S)) (PInt (s_warmup S)) (PInt (s_timeout_s S)) =
           (Inr base_bench, w1) \<and>
         bench_ok base_bench \<and> base_ms st' \<le> median_ms base_bench \<and>
         (best_sql st' \<noteq> bad_sql \<longrightarrow> base_ms st' < median_ms base_bench)))"
proof (intro conjI impI)
  assume a: "consider_candidate thr st c t b = Inr ctl"
  from consider_candidate_cases [OF a]
  show "control_state ctl = st \<or>
      (bench_ok b \<and> median_ms b < base_ms st \<and>
       best_sql (control_state ctl) = c \<and> base_ms (control_state ctl) = median_ms b)"
    by auto
next
  assume a: "consider_candidate thr st c t b = Inr ctl" and e: "median_ms b = base_ms st"
  from consider_candidate_cases [OF a] e show "control_state ctl = st" by auto
next
  assume a: "optimize_rounds E cfg S n st msgs w = (Inr st', msgs', w')"
  from optimize_rounds_mono [OF a] show "base_ms st' \<le> base_ms st" by simp
next
  assume a: "optimize_rounds E cfg S n st msgs w = (Inr st', msgs', w')" and "st' \<noteq> st"
  with optimize_rounds_mono [OF a] show "base_ms st' < base_ms st" by simp
next
  assume a: "optimize E S bad_sql w = (Inr st', msgs', w')"
  obtain rb w1 where bm:
    "benchmark E w (PStr bad_sql) (PInt (s_runs S)) (PInt (s_warmup S)) (PInt (s_timeout_s S)) = (rb, w1)"
    by (cases "benchmark E w (PStr bad_sql) (PInt (s_runs S)) (PInt (s_warmup S)) (PInt (s_timeout_s S))")
  from a bm obtain base_bench where rb: "rb = Inr base_bench"
    by (cases rb) (auto simp: optimize_def Let_def)
  from a bm rb have ok: "bench_ok base_bench"
    by (auto simp: optimize_def Let_def split: if_splits)
  let ?st0 = "\<lparr>best_sql = bad_sql, base_ms = median_ms base_bench, best_report = None\<rparr>"
  from a bm rb ok have rounds:
    "optimize_rounds E \<lparr>max_tool_steps = 35\<rparr> S (nat (max_iters S)) ?st0
       [RoleMsg ''system'' SYSTEM_PROMPT] w1 = (Inr st', msgs', w')"
    by (simp add: optimize_def Let_def)
  from optimize_rounds_mono [OF rounds] optimize_rounds_best_sql [OF rounds]
  have "base_ms st' \<le> median_ms base_bench"
    "best_sql st' \<noteq> bad_sql \<longrightarrow> base_ms st' < median_ms base_bench"
    by simp_all
  with bm rb ok
  show "\<exists>base_bench w1.
         benchmark E w (PStr bad_sql) (PInt (s_runs S)) (PInt (s_warmup S)) (PInt (s_timeout_s S)) =
           (Inr base_bench, w1) \<and>
         bench_ok base_bench \<and> base_ms st' \<le> median_ms base_bench \<and>
         (best_sql st' \<noteq> bad_sql \<longrightarrow> base_ms st' < median_ms base_bench)"
    by blast
qed

theorem reference_never_regresses_witness:
  "consider_candidate 10 \<lparr>best_sql = baseline_sql, base_ms = 120, best_report = None\<rparr> narrow_sql
     (fenced_answer narrow_sql) (BenchOk (PInt 3) (PInt 1) [90, 90, 90] 90 (Some ''plan'') None) =
     Inr (Break \<lparr>best_sql = narrow_sql, base_ms = 90,
                 best_report = Some \<lparr>rep_benchmark = BenchOk (PInt 3) (PInt 1) [90, 90, 90] 90 (Some ''plan'') None,
                                      rep_model_text = fenced_answer narrow_sql,
                                      rep_improve_pct = 25\<rparr>\<rparr>) \<and>
   consider_candidate 10 \<lparr>best_sql = baseline_sql, base_ms = 120, best_report = None\<rparr> narrow_sql
     (fenced_answer narrow_sql) (BenchOk (PInt 3) (PInt 1) [120, 120, 120] 120 (Some ''plan'') None) =
     Inr (Next \<lparr>best_sql = baseline_sql, base_ms = 120, best_report = None\<rparr>) \<and>
   (\<exists>st' msgs' w'.
      optimize_rounds (scripted_env narrow_script shop_engine) \<lparr>max_tool_steps = 35\<rparr> shop_settings 2
        \<lparr>best_sql = baseline_sql, base_ms = 120, best_report = None\<rparr> [] (0, 0) = (Inr st', msgs', w') \<and>
      base_ms st' \<le> 120 \<and> base_ms st' < 120) \<and>
   (\<exists>st' msgs' w' base_bench w1.
      optimize (scripted_env narrow_script shop_engine) shop_settings baseline_sql (0, 0) =
        (Inr st', msgs', w') \<and>
      benchmark (scripted_env narrow_script shop_engine) (0, 0) (PStr baseline_sql)
        (PInt 3) (PInt 1) (PInt 60) = (Inr base_bench, w1) \<and>
      bench_ok base_bench \<and> base_ms st' \<le> median_ms base_bench \<and>
      base_ms st' < median_ms base_bench)"
proof -
  let ?E = "scripted_env narrow_script shop_engine"
  let ?st0 = "\<lparr>best_sql = baseline_sql, base_ms = 120, best_report = None\<rparr>"
  let ?b90 = "BenchOk (PInt 3) (PInt 1) [90, 90, 90] 90 (Some ''plan'') None"
  let ?b120 = "BenchOk (PInt 3) (PInt 1) [120, 120, 120] 120 (Some ''plan'') None"
  let ?st1 = "\<lparr>best_sql = narrow_sql, base_ms = 90,
               best_report = Some \<lparr>rep_benchmark = ?b90, rep_model_text = fenced_answer narrow_sql,
                                    rep_improve_pct = 25\<rparr>\<rparr>"
  have c1: "consider_candidate 10 ?st0 narrow_sql (fenced_answer narrow_sql) ?b90 = Inr (Break ?st1)"
    by (simp add: consider_candidate_def)
  have c2: "consider_candidate 10 ?st0 narrow_sql (fenced_answer narrow_sql) ?b120 = Inr (Next ?st0)"
    by (simp add: consider_candidate_def)
  note t = reference_never_regresses
  from t [where thr = 10 and st = ?st0 and c = narrow_sql and t = "fenced_answer narrow_sql"
            and b = ?b90 and ctl = "Break ?st1", THEN conjunct1, THEN mp, OF c1]
  have u1: "control_state (Break ?st1) = ?st0 \<or>
            (bench_ok ?b90 \<and> median_ms ?b90 < base_ms ?st0 \<and>
             best_sql (control_state (Break ?st1)) = narrow_sql \<and>
             base_ms (control_state (Break ?st1)) = median_ms ?b90)" .
  from t [where thr = 10 and st = ?st0 and c = narrow_sql and t = "fenced_answer narrow_sql"
            and b = ?b120 and ctl = "Next ?st0", THEN conjunct2, THEN conjunct1, THEN mp, THEN mp, OF c2]
  have u2: "control_state (Next ?st0) = ?st0" by simp
  have r: "fst (optimize_rounds ?E \<lparr>max_tool_steps = 35\<rparr> shop_settings 2 ?st0 [] (0, 0)) = Inr ?st1"
    by code_simp
  then obtain msgs' w' where
    rounds: "optimize_rounds ?E \<lparr>max_tool_steps = 35\<rparr> shop_settings 2 ?st0 [] (0, 0) = (Inr ?st1, msgs', w')"
    by (cases "optimize_rounds ?E \<lparr>max_tool_steps = 35\<rparr> shop_settings 2 ?st0 [] (0, 0)") auto
  have ne: "?st1 \<noteq> ?st0" by simp
  from t [where E = ?E and cfg = "\<lparr>max_tool_steps = 35\<rparr>" and S = shop_settings and n = 2
            and st = ?st0 and msgs = "[]" and w = "(0, 0)" and st' = ?st1 and msgs' = msgs' and w' = w',
          THEN conjunct2, THEN conjunct2, THEN conjunct1, THEN mp, OF rounds] ne
  have u3: "base_ms ?st1 \<le> 120 \<and> base_ms ?st1 < 120" by simp
  have o: "fst (optimize ?E shop_settings baseline_sql (0, 0)) = Inr ?st1"
    by code_simp
  then obtain msgs2 w2 where
    opt: "optimize ?E shop_settings baseline_sql (0, 0) = (Inr ?st1, msgs2, w2)"
    by (cases "optimize ?E shop_settings baseline_sql (0, 0)") auto
  have ne_sql: "best_sql ?st1 \<noteq> baseline_sql"
    by (simp add: narrow_sql_def baseline_sql_def)
  from t [where E = ?E and S = shop_settings and w = "(0, 0)" and st' = ?st1 and msgs' = msgs2
            and w' = w2 and bad_sql = baseline_sql,
          THEN conjunct2, THEN conjunct2, THEN conjunct2, THEN mp, OF opt] ne_sql
  obtain base_bench w1 where
    "benchmark ?E (0, 0) (PStr baseline_sql) (PInt 3) (PInt 1) (PInt 60) = (Inr base_bench, w1)"
    "bench_ok base_bench" "base_ms ?st1 \<le> median_ms base_bench" "base_ms ?st1 < median_ms base_bench"
    by (auto simp: shop_settings_def)
  with c1 c2 rounds u3 opt show ?thesis by blast
qed



text \<open>
  C8. A candidate whose benchmark record is not \<open>ok\<close> raises nothing and leaves the best
  SQL, the reference and the report as they were; the loop goes on with the next round
  from that state. A baseline whose benchmark record is not \<open>ok\<close> ends the command with
  exit code 1 before any round: there is no other baseline.
\<close>

theorem failed_candidate_keeps_best:
  "consider_candidate thr st c t (BenchError e) = Inr (Next st) \<and>
   (optimize_once E cfg msgs w (best_sql st) (s_runs S) (s_warmup S) (s_timeout_s S) False =
      (Inr (ft, ev), msgs1, w1) \<longrightarrow>
    extract_sql_from_model (case ft of None \<Rightarrow> [] | Some x \<Rightarrow> x) = Some c \<longrightarrow> c \<noteq> [] \<longrightarrow>
    benchmark E w1 (PStr c) (PInt (s_runs S)) (PInt (s_warmup S)) (PInt (s_timeout_s S)) =
      (Inr (BenchError e), w2) \<longrightarrow>
      optimize_rounds E cfg S (Suc n) st msgs w = optimize_rounds E cfg S n st msgs1 w2) \<and>
   (benchmark E w (PStr bad_sql) (PInt (s_runs S)) (PInt (s_warmup S)) (PInt (s_timeout_s S)) =
      (Inr (BenchError e), w1) \<longrightarrow>
      optimize E S bad_sql w = (Inl (Exit 1), [RoleMsg ''system'' SYSTEM_PROMPT], w1))"
proof (intro conjI impI)
  show "consider_candidate thr st c t (BenchError e) = Inr (Next st)"
    by (simp add: consider_candidate_def)
next
  assume "optimize_once E cfg msgs w (best_sql st) (s_runs S) (s_warmup S) (s_timeout_s S) False =
      (Inr (ft, ev), msgs1, w1)"
    "extract_sql_from_model (case ft of None \<Rightarrow> [] | Some x \<Rightarrow> x) = Some c" "c \<noteq> []"
    "benchmark E w1 (PStr c) (PInt (s_runs S)) (PInt (s_warmup S)) (PInt (s_timeout_s S)) =
      (Inr (BenchError e), w2)"
  then show "optimize_rounds E cfg S (Suc n) st msgs w = optimize_rounds E cfg S n st msgs1 w2"
    by (simp add: consider_candidate_def)
next
  assume "benchmark E w (PStr bad_sql) (PInt (s_runs S)) (PInt (s_warmup S)) (PInt (s_timeout_s S)) =
      (Inr (BenchError e), w1)"
  then show "optimize E S bad_sql w = (Inl (Exit 1), [RoleMsg ''system'' SYSTEM_PROMPT], w1)"
    by (simp add: optimize_def Let_def)
qed

theorem failed_candidate_keeps_best_witness:
  "(\<exists>msgs1.
      optimize_rounds (scripted_env retry_script shop_engine) \<lparr>max_tool_steps = 35\<rparr> shop_settings (Suc 1)
        \<lparr>best_sql = baseline_sql, base_ms = 120, best_report = None\<rparr> [] (0, 0) =
      optimize_rounds (scripted_env retry_script shop_engine) \<lparr>max_tool_steps = 35\<rparr> shop_settings 1
        \<lparr>best_sql = baseline_sql, base_ms = 120, best_report = None\<rparr> msgs1 (1, 1)) \<and>
   fst (optimize_rounds (scripted_env retry_script shop_engine) \<lparr>max_tool_steps = 35\<rparr> shop_settings (Suc 1)
        \<lparr>best_sql = baseline_sql, base_ms = 120, best_report = None\<rparr> [] (0, 0)) =
     Inr \<lparr>best_sql = narrow_sql, base_ms = 90,
          best_report = Some \<lparr>rep_benchmark = BenchOk (PInt 3) (PInt 1) [90, 90, 90] 90 (Some ''plan'') None,
                               rep_model_text = fenced_answer narrow_sql,
                               rep_improve_pct = 25\<rparr>\<rparr> \<and>
   optimize (scripted_env retry_script shop_engine) shop_settings broken_sql (0, 0) =
     (Inl (Exit 1), [RoleMsg ''system'' SYSTEM_PROMPT], (0, 1))"
proof -
  let ?E = "scripted_env retry_script shop_engine"
  let ?cfg = "\<lparr>max_tool_steps = 35\<rparr>"
  let ?st0 = "\<lparr>best_sql = baseline_sql, base_ms = 120, best_report = None\<rparr>"
  let ?once = "optimize_once ?E ?cfg [] (0, 0) (best_sql ?st0) (s_runs shop_settings)
                 (s_warmup shop_settings) (s_timeout_s shop_settings) False"
  let ?err = "''EXPLAIN ANALYZE failed: Parser Error''"
  note t = failed_candidate_keeps_best
  have o1: "fst ?once = Inr (Some (fenced_answer broken_sql), [])" by code_simp
  have o2: "snd (snd ?once) = (1, 0)" by code_simp
  from o1 o2 have once: "?once = (Inr (Some (fenced_answer broken_sql), []), fst (snd ?once), (1, 0))"
    by (metis prod.collapse)
  have ex: "extract_sql_from_model (case Some (fenced_answer broken_sql) of None \<Rightarrow> [] | Some x \<Rightarrow> x) =
              Some broken_sql"
    by code_simp
  have ne: "broken_sql \<noteq> []" by (simp add: broken_sql_def)
  have bm: "benchmark ?E (1, 0) (PStr broken_sql) (PInt (s_runs shop_settings))
              (PInt (s_warmup shop_settings)) (PInt (s_timeout_s shop_settings)) =
              (Inr (BenchError ?err), (1, 1))"
    by code_simp
  note a = t [where E = ?E and cfg = ?cfg and msgs = "[]" and w = "(0, 0)" and st = ?st0
            and S = shop_settings and ft = "Some (fenced_answer broken_sql)" and ev = "[]"
            and ?msgs1.0 = "fst (snd ?once)" and ?w1.0 = "(1, 0)" and c = broken_sql and e = ?err
            and ?w2.0 = "(1, 1)" and n = 1,
          THEN conjunct2, THEN conjunct1, THEN mp, THEN mp, THEN mp, THEN mp, OF once ex ne bm]
  then have w1: "\<exists>msgs1. optimize_rounds ?E ?cfg shop_settings (Suc 1) ?st0 [] (0, 0) =
                   optimize_rounds ?E ?cfg shop_settings 1 ?st0 msgs1 (1, 1)"
    by blast
  have w2: "fst (optimize_rounds ?E ?cfg shop_settings (Suc 1) ?st0 [] (0, 0)) =
     Inr \<lparr>best_sql = narrow_sql, base_ms = 90,
          best_report = Some \<lparr>rep_benchmark = BenchOk (PInt 3) (PInt 1) [90, 90, 90] 90 (Some ''plan'') None,
                               rep_model_text = fenced_answer narrow_sql,
                               rep_improve_pct = 25\<rparr>\<rparr>"
    by code_simp
  have bm0: "benchmark ?E (0, 0) (PStr broken_sql) (PInt (s_runs shop_settings))
              (PInt (s_warmup shop_settings)) (PInt (s_timeout_s shop_settings)) =
              (Inr (BenchError ?err), (0, 1))"
    by code_simp
  note w3 = t [where E = ?E and w = "(0, 0)" and bad_sql = broken_sql and S = shop_settings
            and e = ?err and ?w1.0 = "(0, 1)",
          THEN conjunct2, THEN conjunct2, THEN mp, OF bm0]
  from w1 w2 w3 show ?thesis by (intro conjI)
qed

section \<open>Candidate extraction\<close>

lemma backtick_not_space: "\<not> is_space (CHR 0x60)"
  by (simp add: is_space_def)

lemma prefix_fence_Cons: "prefix fence (c # cs) \<Longrightarrow> c = CHR 0x60"
  by (simp add: fence_def)

lemma find_fence_close_Some:
  "find_fence_close s = Some g \<Longrightarrow> \<exists>rest. s = g @ fence @ rest"
proof (induction s arbitrary: g)
  case Nil
  then show ?case by simp
next
  case (Cons c cs)
  show ?case
  proof (cases "prefix fence (c # cs)")
    case True
    with Cons.prems have "g = []" by simp
    with True show ?thesis by (auto simp: prefix_def)
  next
    case False
    with Cons.prems obtain g' where g': "find_fence_close cs = Some g'" and g: "g = c # g'"
      by (auto split: option.splits)
    from Cons.IH [OF g'] g show ?thesis by auto
  qed
qed

lemma find_fence_close_first:
  "\<forall>j<length inner. \<not> prefix fence (drop j (inner @ fence @ rest)) \<Longrightarrow>
   find_fence_close (inner @ fence @ rest) = Some inner"
proof (induction inner)
  case Nil
  show ?case by (simp add: fence_def)
next
  case (Cons c inner)
  from Cons.prems have "\<not> prefix fence (drop 0 ((c # inner) @ fence @ rest))" by blast
  then have no: "\<not> prefix fence (c # inner @ fence @ rest)" by simp
  have "\<forall>j<length inner. \<not> prefix fence (drop j (inner @ fence @ rest))"
  proof (intro allI impI)
    fix j assume "j < length inner"
    then have "Suc j < length (c # inner)" by simp
    with Cons.prems have "\<not> prefix fence (drop (Suc j) ((c # inner) @ fence @ rest))" by blast
    then show "\<not> prefix fence (drop j (inner @ fence @ rest))" by simp
  qed
  from Cons.IH [OF this] no show ?case by simp
qed

lemma find_fence_close_spaces:
  "\<forall>c \<in> set ws. is_space c \<Longrightarrow> find_fence_close s = None \<Longrightarrow> find_fence_close (ws @ s) = None"
proof (induction ws)
  case Nil
  then show ?case by simp
next
  case (Cons c ws)
  from Cons.prems have "is_space c" by simp
  with backtick_not_space have "c \<noteq> CHR 0x60" by auto
  with prefix_fence_Cons have "\<not> prefix fence (c # ws @ s)" by blast
  with Cons show ?case by simp
qed

lemma first_some_all_None: "\<forall>x \<in> set xs. x = None \<Longrightarrow> first_some xs = None"
  by (induction xs) auto

lemma drop_in_takeWhile:
  assumes "j \<le> length (takeWhile P r)"
  shows "drop j r = drop j (takeWhile P r) @ dropWhile P r"
proof -
  have "drop j (takeWhile P r @ dropWhile P r) = drop j (takeWhile P r) @ dropWhile P r"
    using assms by (simp only: drop_append) simp
  then show ?thesis by (simp only: takeWhile_dropWhile_id)
qed

lemma match_block_at_greedy:
  assumes "fence_tag_at s"
  shows "match_block_at s = find_fence_close (dropWhile is_space (drop 6 s))"
proof -
  let ?rest = "drop 6 s"
  let ?k = "length (takeWhile is_space ?rest)"
  let ?f = "\<lambda>j. find_fence_close (drop j ?rest)"
  have dk: "drop ?k ?rest = dropWhile is_space ?rest" by (simp add: dropWhile_eq_drop)
  have m: "match_block_at s = first_some (?f ?k # map ?f (rev [0..<?k]))"
    using assms by (simp add: match_block_at_def Let_def)
  show ?thesis
  proof (cases "?f ?k")
    case (Some g)
    with m dk show ?thesis by simp
  next
    case None
    have "\<forall>x \<in> set (map ?f (rev [0..<?k])). x = None"
    proof
      fix x assume "x \<in> set (map ?f (rev [0..<?k]))"
      then obtain j where j: "j < ?k" and x: "x = ?f j" by auto
      from j have "j \<le> ?k" by simp
      then have d: "drop j ?rest = drop j (takeWhile is_space ?rest) @ dropWhile is_space ?rest"
        by (rule drop_in_takeWhile)
      have sp: "\<forall>c \<in> set (drop j (takeWhile is_space ?rest)). is_space c"
        by (meson in_set_dropD set_takeWhileD)
      from None dk have "find_fence_close (dropWhile is_space ?rest) = None" by simp
      from find_fence_close_spaces [OF sp this] d x show "x = None" by simp
    qed
    then have "first_some (map ?f (rev [0..<?k])) = None" by (rule first_some_all_None)
    with m None dk show ?thesis by simp
  qed
qed

lemma SQL_BLOCK_search_skip:
  "\<forall>i<length pre. \<not> fence_tag_at (drop i (pre @ s)) \<Longrightarrow>
   SQL_BLOCK_search (pre @ s) = SQL_BLOCK_search s"
proof (induction pre)
  case Nil
  then show ?case by simp
next
  case (Cons c pre)
  from Cons.prems have "\<not> fence_tag_at (drop 0 ((c # pre) @ s))" by blast
  then have no: "match_block_at (c # pre @ s) = None" by (simp add: match_block_at_def)
  have "\<forall>i<length pre. \<not> fence_tag_at (drop i (pre @ s))"
  proof (intro allI impI)
    fix i assume "i < length pre"
    then have "Suc i < length (c # pre)" by simp
    with Cons.prems have "\<not> fence_tag_at (drop (Suc i) ((c # pre) @ s))" by blast
    then show "\<not> fence_tag_at (drop i (pre @ s))" by simp
  qed
  from Cons.IH [OF this] no show ?case by simp
qed

lemma fence_tag_at_append:
  "length tag = 6 \<Longrightarrow> fence_tag_at (tag @ s) = fence_tag_at tag"
  by (simp add: fence_tag_at_def)

lemma dropWhile_space_fence:
  "dropWhile is_space (inner @ fence @ rest) = dropWhile is_space inner @ fence @ rest"
proof (cases "\<forall>c \<in> set inner. is_space c")
  case True
  have "dropWhile is_space (fence @ rest) = fence @ rest"
    using backtick_not_space by (simp add: fence_def)
  with True show ?thesis by (simp add: dropWhile_append2)
next
  case False
  then show ?thesis by (auto simp: dropWhile_append1)
qed

lemma strip_dropWhile: "strip (dropWhile is_space s) = strip s"
  by (simp add: strip_def)

lemma SQL_BLOCK_search_first_block:
  assumes tag: "length tag = 6" "fence_tag_at tag"
    and first: "\<forall>i<length pre. \<not> fence_tag_at (drop i (pre @ tag @ inner @ fence @ rest))"
    and close: "\<forall>j<length inner. \<not> prefix fence (drop j (inner @ fence @ rest))"
  shows "SQL_BLOCK_search (pre @ tag @ inner @ fence @ rest) = Some (dropWhile is_space inner)"
proof -
  let ?s = "tag @ inner @ fence @ rest"
  let ?inner' = "dropWhile is_space inner"
  have ft: "fence_tag_at ?s" using tag by (simp add: fence_tag_at_append)
  have d6: "drop 6 ?s = inner @ fence @ rest" using tag by simp
  have split: "inner = takeWhile is_space inner @ ?inner'" by simp
  have close': "\<forall>j<length ?inner'. \<not> prefix fence (drop j (?inner' @ fence @ rest))"
  proof (intro allI impI)
    fix j assume j: "j < length ?inner'"
    let ?n = "length (takeWhile is_space inner)"
    have "length inner = ?n + length ?inner'"
      by (metis length_append split)
    with j have "?n + j < length inner" by simp
    with close have "\<not> prefix fence (drop (?n + j) (inner @ fence @ rest))" by blast
    moreover have "drop (?n + j) (inner @ fence @ rest) = drop j (?inner' @ fence @ rest)"
    proof -
      have "inner @ fence @ rest = takeWhile is_space inner @ (?inner' @ fence @ rest)"
        by simp
      then have "drop (?n + j) (inner @ fence @ rest) =
                 drop (?n + j) (takeWhile is_space inner @ (?inner' @ fence @ rest))"
        by (rule arg_cong)
      also have "\<dots> = drop j (?inner' @ fence @ rest)"
        by (simp add: drop_append del: takeWhile_dropWhile_id append_assoc)
      finally show ?thesis .
    qed
    ultimately show "\<not> prefix fence (drop j (?inner' @ fence @ rest))" by simp
  qed
  have "match_block_at ?s = find_fence_close (dropWhile is_space (inner @ fence @ rest))"
    using match_block_at_greedy [OF ft] d6 by simp
  also have "\<dots> = find_fence_close (?inner' @ fence @ rest)"
    by (simp only: dropWhile_space_fence)
  also have "\<dots> = Some ?inner'" by (rule find_fence_close_first [OF close'])
  finally have m: "match_block_at ?s = Some ?inner'" .
  from tag obtain c cs where cs: "?s = c # cs" by (cases tag) auto
  with m have "SQL_BLOCK_search ?s = Some ?inner'" by simp
  with SQL_BLOCK_search_skip [OF first] show ?thesis by simp
qed

lemma SQL_BLOCK_search_Some:
  "SQL_BLOCK_search s = Some g \<Longrightarrow> \<exists>pre s'. s = pre @ s' \<and> match_block_at s' = Some g"
proof (induction s)
  case Nil
  then show ?case by simp
next
  case (Cons c cs)
  show ?case
  proof (cases "match_block_at (c # cs)")
    case None
    with Cons.prems have "SQL_BLOCK_search cs = Some g" by simp
    from Cons.IH [OF this] obtain pre s' where "cs = pre @ s'" "match_block_at s' = Some g" by blast
    then have "c # cs = (c # pre) @ s' \<and> match_block_at s' = Some g" by simp
    then show ?thesis by blast
  next
    case (Some g')
    with Cons.prems have "g' = g" by simp
    with Some have "c # cs = [] @ (c # cs) \<and> match_block_at (c # cs) = Some g" by simp
    then show ?thesis by blast
  qed
qed

lemma match_block_at_Some:
  assumes "match_block_at s = Some g"
  shows "\<exists>tag inner rest. s = tag @ inner @ fence @ rest \<and> length tag = 6 \<and> fence_tag_at tag"
proof -
  from assms have ft: "fence_tag_at s" by (auto simp: match_block_at_def split: if_splits)
  then have "length (lower (take 3 (drop 3 s))) = 3" by (simp add: fence_tag_at_def)
  then have len: "6 \<le> length s" by (simp add: lower_def min_def split: if_splits)
  from match_block_at_greedy [OF ft] assms
  have "find_fence_close (dropWhile is_space (drop 6 s)) = Some g" by simp
  from find_fence_close_Some [OF this] obtain rest where
    r: "dropWhile is_space (drop 6 s) = g @ fence @ rest" by blast
  have "drop 6 s = takeWhile is_space (drop 6 s) @ dropWhile is_space (drop 6 s)" by simp
  with r have d: "drop 6 s = (takeWhile is_space (drop 6 s) @ g) @ fence @ rest" by simp
  have "s = take 6 s @ drop 6 s" by simp
  with d have s: "s = take 6 s @ (takeWhile is_space (drop 6 s) @ g) @ fence @ rest" by simp
  have "fence_tag_at (take 6 s)"
    using ft by (simp add: fence_tag_at_def drop_take)
  moreover have "length (take 6 s) = 6" using len by simp
  ultimately show ?thesis using s by blast
qed

lemma no_block_no_match:
  assumes "\<not> has_fenced_block text"
  shows "SQL_BLOCK_search text = None"
proof (rule ccontr)
  assume "SQL_BLOCK_search text \<noteq> None"
  then obtain g where "SQL_BLOCK_search text = Some g" by auto
  from SQL_BLOCK_search_Some [OF this] obtain pre s' where
    t: "text = pre @ s'" and m: "match_block_at s' = Some g" by blast
  from match_block_at_Some [OF m] obtain tag inner rest where
    "s' = tag @ inner @ fence @ rest" "length tag = 6" "fence_tag_at tag" by blast
  with t have "has_fenced_block text" unfolding has_fenced_block_def by blast
  with assms show False by contradiction
qed

lemma list_all_upt: "list_all P [0..<n] \<Longrightarrow> \<forall>i<n. P i"
  by (simp add: list_all_iff)

lemma no_backtick_no_block:
  assumes "CHR 0x60 \<notin> set text"
  shows "\<not> has_fenced_block text"
proof
  assume "has_fenced_block text"
  then obtain pre tag inner rest where "text = pre @ tag @ inner @ fence @ rest"
    unfolding has_fenced_block_def by blast
  then have "CHR 0x60 \<in> set text" by (simp add: fence_def)
  with assms show False by contradiction
qed

text \<open>
  C7. When the text holds a fenced SQL block (an opening tag with no opening tag before
  it, then content up to the first closing fence), the extraction returns the content of
  that block, stripped. When the text holds no fenced SQL block, the extraction returns
  the whole text, stripped, if \<open>select\<close> occurs in it in any case, and no candidate
  otherwise. A round whose final text gives no candidate, or an empty one, ends the run
  with the state as it was: the best seen so far.
\<close>

theorem extract_first_block_or_select:
  "(text = pre @ tag @ inner @ fence @ rest \<longrightarrow> length tag = 6 \<longrightarrow> fence_tag_at tag \<longrightarrow>
    (\<forall>i<length pre. \<not> fence_tag_at (drop i text)) \<longrightarrow>
    (\<forall>j<length inner. \<not> prefix fence (drop j (inner @ fence @ rest))) \<longrightarrow>
      extract_sql_from_model text = Some (strip inner)) \<and>
   (\<not> has_fenced_block text \<longrightarrow>
      extract_sql_from_model text =
        (if contains ''select'' (lower text) then Some (strip text) else None)) \<and>
   (optimize_once E cfg msgs w (best_sql st) (s_runs S) (s_warmup S) (s_timeout_s S) False =
      (Inr (ft, ev), msgs1, w1) \<longrightarrow>
    extract_sql_from_model (case ft of None \<Rightarrow> [] | Some x \<Rightarrow> x) \<in> {None, Some []} \<longrightarrow>
      optimize_rounds E cfg S (Suc n) st msgs w = (Inr st, msgs1, w1))"
proof (intro conjI impI)
  assume t: "text = pre @ tag @ inner @ fence @ rest" and tag: "length tag = 6" "fence_tag_at tag"
    and first: "\<forall>i<length pre. \<not> fence_tag_at (drop i text)"
    and close: "\<forall>j<length inner. \<not> prefix fence (drop j (inner @ fence @ rest))"
  from first t have first': "\<forall>i<length pre. \<not> fence_tag_at (drop i (pre @ tag @ inner @ fence @ rest))"
    by simp
  from tag have "text \<noteq> []" using t by auto
  moreover have "SQL_BLOCK_search text = Some (dropWhile is_space inner)"
    using SQL_BLOCK_search_first_block [OF tag first' close] t by simp
  ultimately show "extract_sql_from_model text = Some (strip inner)"
    by (simp add: extract_sql_from_model_def strip_dropWhile)
next
  assume "\<not> has_fenced_block text"
  then have "SQL_BLOCK_search text = None" by (rule no_block_no_match)
  then show "extract_sql_from_model text =
        (if contains ''select'' (lower text) then Some (strip text) else None)"
    by (simp add: extract_sql_from_model_def lower_def)
next
  assume "optimize_once E cfg msgs w (best_sql st) (s_runs S) (s_warmup S) (s_timeout_s S) False =
      (Inr (ft, ev), msgs1, w1)"
    "extract_sql_from_model (case ft of None \<Rightarrow> [] | Some x \<Rightarrow> x) \<in> {None, Some []}"
  then show "optimize_rounds E cfg S (Suc n) st msgs w = (Inr st, msgs1, w1)"
    by auto
qed

theorem extract_first_block_or_select_witness:
  "extract_sql_from_model (fenced_answer narrow_sql) = Some narrow_sql \<and>
   \<not> has_fenced_block ''  Select 1  '' \<and>
   extract_sql_from_model ''  Select 1  '' = Some ''Select 1'' \<and>
   \<not> has_fenced_block ''No faster form found.'' \<and>
   extract_sql_from_model ''No faster form found.'' = None \<and>
   (\<exists>msgs1.
      optimize_rounds (scripted_env prose_script shop_engine) \<lparr>max_tool_steps = 35\<rparr> shop_settings (Suc 1)
        \<lparr>best_sql = baseline_sql, base_ms = 120, best_report = None\<rparr> [] (0, 0) =
        (Inr \<lparr>best_sql = baseline_sql, base_ms = 120, best_report = None\<rparr>, msgs1, (1, 0)))"
proof -
  note t = extract_first_block_or_select
  let ?pre = "''Rewritten:'' @ nl"
  let ?tag = "fence @ ''sql''"
  let ?inner = "nl @ narrow_sql @ nl"
  let ?answer = "fenced_answer narrow_sql"
  have h1: "?answer = ?pre @ ?tag @ ?inner @ fence @ []" by (simp add: fenced_answer_def)
  have h2: "length ?tag = 6" by (simp add: fence_def)
  have h3: "fence_tag_at ?tag" by code_simp
  have "list_all (\<lambda>i. \<not> fence_tag_at (drop i ?answer)) [0..<length ?pre]" by code_simp
  then have h4: "\<forall>i<length ?pre. \<not> fence_tag_at (drop i ?answer)" by (rule list_all_upt)
  have "list_all (\<lambda>j. \<not> prefix fence (drop j (?inner @ fence @ []))) [0..<length ?inner]" by code_simp
  then have h5: "\<forall>j<length ?inner. \<not> prefix fence (drop j (?inner @ fence @ []))"
    by (rule list_all_upt)
  have s: "strip ?inner = narrow_sql" by code_simp
  from t [where ?text = ?answer and pre = ?pre and tag = ?tag and inner = ?inner and rest = "[]",
          THEN conjunct1, THEN mp, THEN mp, THEN mp, THEN mp, THEN mp, OF h1 h2 h3 h4 h5] s
  have a: "extract_sql_from_model ?answer = Some narrow_sql" by simp
  have n1: "\<not> has_fenced_block ''  Select 1  ''" by (rule no_backtick_no_block) simp
  have n2: "\<not> has_fenced_block ''No faster form found.''" by (rule no_backtick_no_block) simp
  have e1: "(if contains ''select'' (lower ''  Select 1  '') then Some (strip ''  Select 1  '') else None) =
            Some ''Select 1''" by code_simp
  have e2: "(if contains ''select'' (lower ''No faster form found.'')
             then Some (strip ''No faster form found.'') else None) = None" by code_simp
  from t [where ?text = "''  Select 1  ''", THEN conjunct2, THEN conjunct1, THEN mp, OF n1] e1
  have b1: "extract_sql_from_model ''  Select 1  '' = Some ''Select 1''" by simp
  from t [where ?text = "''No faster form found.''", THEN conjunct2, THEN conjunct1, THEN mp, OF n2] e2
  have b2: "extract_sql_from_model ''No faster form found.'' = None" by simp
  let ?E = "scripted_env prose_script shop_engine"
  let ?cfg = "\<lparr>max_tool_steps = 35\<rparr>"
  let ?st0 = "\<lparr>best_sql = baseline_sql, base_ms = 120, best_report = None\<rparr>"
  let ?once = "optimize_once ?E ?cfg [] (0, 0) (best_sql ?st0) (s_runs shop_settings)
                 (s_warmup shop_settings) (s_timeout_s shop_settings) False"
  have o1: "fst ?once = Inr (Some ''No faster form found.'', [])" by code_simp
  have o2: "snd (snd ?once) = (1, 0)" by code_simp
  from o1 o2 have once: "?once = (Inr (Some ''No faster form found.'', []), fst (snd ?once), (1, 0))"
    by (metis prod.collapse)
  from b2 have ex: "extract_sql_from_model (case Some ''No faster form found.'' of None \<Rightarrow> [] | Some x \<Rightarrow> x)
                      \<in> {None, Some []}" by simp
  note c = t [where E = ?E and cfg = ?cfg and msgs = "[]" and w = "(0, 0)" and st = ?st0
            and S = shop_settings and ft = "Some ''No faster form found.''" and ev = "[]"
            and ?msgs1.0 = "fst (snd ?once)" and ?w1.0 = "(1, 0)" and n = 1,
          THEN conjunct2, THEN conjunct2, THEN mp, THEN mp, OF once ex]
  then have c': "\<exists>msgs1. optimize_rounds ?E ?cfg shop_settings (Suc 1) ?st0 [] (0, 0) =
                   (Inr ?st0, msgs1, (1, 0))" by blast
  from a n1 b1 n2 b2 c' show ?thesis by (intro conjI)
qed

end
